theory Spec2Isabelle
  imports Main
begin

section \<open>Data model\<close>

text \<open>
  Modelled from the spec: the error types of the package. The file that declares them is
  not among the sources; the constructors and their fields are the ones the code builds
  (\<^verbatim>\<open>InTransitionError{event}\<close>, \<^verbatim>\<open>InvalidEventError{Event: event, State: m.current}\<close>,
  \<^verbatim>\<open>UnknownEventError{event}\<close>, \<^verbatim>\<open>NoTransitionError{e.Err}\<close>, \<^verbatim>\<open>CanceledError{e.Err}\<close>,
  \<^verbatim>\<open>AsyncError{e.Err}\<close>, \<^verbatim>\<open>InternalError{}\<close>, \<^verbatim>\<open>NotInTransitionError{}\<close>) and the
  taxonomy of the specification. \<open>OtherError\<close> stands for any error value of another
  package that a callback attaches to the context.
\<close>

datatype error =
    InvalidEventError string string
  | UnknownEventError string
  | InTransitionError string
  | NotInTransitionError
  | NoTransitionError "error option"
  | CanceledError "error option"
  | AsyncError "error option"
  | InternalError
  | OtherError string

text \<open>\<^verbatim>\<open>type EventDesc struct { Name string; Src []string; Dst string }\<close>\<close>

record EventDesc =
  Name :: string
  Src :: "string list"
  Dst :: string

text \<open>\<^verbatim>\<open>type eKey struct { event string; src string }\<close>\<close>

record eKey =
  event :: string
  src :: string

text \<open>The constants \<^verbatim>\<open>callbackNone ... callbackAfterEvent\<close> (an \<^verbatim>\<open>iota\<close> enumeration).\<close>

datatype callbackType =
    callbackNone
  | callbackBeforeEvent
  | callbackLeaveState
  | callbackEnterState
  | callbackAfterEvent

text \<open>\<^verbatim>\<open>type cKey struct { target string; callbackType int }\<close>\<close>

record cKey =
  target :: string
  callbackType :: callbackType

text \<open>
  The event context, \<^verbatim>\<open>type Event struct\<close>. Its fields \<^verbatim>\<open>Event\<close>, \<^verbatim>\<open>Src\<close> and \<^verbatim>\<open>Dst\<close>
  carry the prefix \<open>Event_\<close> here, because the plain names are taken by the method
  \<^verbatim>\<open>Machine.Event\<close> and by the fields of \<open>EventDesc\<close>. The arguments are of an arbitrary
  type \<open>'a\<close> (\<^verbatim>\<open>interface{}\<close>). The field \<^verbatim>\<open>Machine\<close> is a pointer back to the machine:
  what a callback can read through it is handed to the callback as a \<open>MachineView\<close>.
\<close>

record 'a Event =
  Event_Event :: string
  Event_Src :: string
  Event_Dst :: string
  Err :: "error option"
  Args :: "'a list"
  canceled :: bool
  async :: bool

text \<open>
  What the read-only methods of the machine (\<^verbatim>\<open>Current\<close>, \<^verbatim>\<open>Is\<close>, \<^verbatim>\<open>Can\<close>, \<^verbatim>\<open>Cannot\<close>,
  \<^verbatim>\<open>AvailableTransitions\<close>) depend on besides the immutable transition table: the
  current state and whether the field \<^verbatim>\<open>transition\<close> is non-nil.
\<close>

record MachineView =
  view_current :: string
  view_pending :: bool

text \<open>
  \<^verbatim>\<open>type Callback func(event *Event)\<close>: a callback reads the machine through the context
  and mutates the context. Callbacks are assumed not to call the mutating methods of
  the machine (\<^verbatim>\<open>SetState\<close>, \<^verbatim>\<open>Event\<close>) on their own machine.
\<close>

type_synonym 'a Callback = "MachineView \<Rightarrow> 'a Event \<Rightarrow> 'a Event"

text \<open>
  \<^verbatim>\<open>type Machine struct\<close>. The field \<^verbatim>\<open>transition func()\<close> holds either nil or the closure
  built by \<^verbatim>\<open>Event\<close>; the closure is determined by the two variables it captures, the
  destination \<^verbatim>\<open>dst\<close> and the context \<^verbatim>\<open>e\<close>, so the slot is modelled by that pair. The
  field \<^verbatim>\<open>transitionerObj\<close> is always \<^verbatim>\<open>&transitionerStruct{}\<close> and the two mutexes have
  no content in a sequential model; they are left out.
\<close>

record 'a Machine =
  current :: string
  transitions :: "eKey \<rightharpoonup> string"
  callbacks :: "cKey \<rightharpoonup> 'a Callback"
  transition :: "(string \<times> 'a Event) option"

text \<open>
  The observable effect of callbacks: every call \<^verbatim>\<open>fn(e)\<close> is logged with the registry
  key under which \<^verbatim>\<open>fn\<close> was found and the content of the context when \<^verbatim>\<open>fn\<close> returns.
\<close>

type_synonym 'a trace = "(cKey \<times> 'a Event) list"

text \<open>
  \<^verbatim>\<open>func (e *Event) Cancel(err ...error)\<close>: the variadic argument is a list of error
  values, each of which may be nil.
\<close>

definition Cancel :: "'a Event \<Rightarrow> error option list \<Rightarrow> 'a Event" where
  "Cancel e err =
     (case err of
        [] \<Rightarrow> e\<lparr>canceled := True\<rparr>
      | x # rest \<Rightarrow> e\<lparr>canceled := True, Err := x\<rparr>)"

text \<open>\<^verbatim>\<open>func (e *Event) Async()\<close>\<close>

definition Async :: "'a Event \<Rightarrow> 'a Event" where
  "Async e = e\<lparr>async := True\<rparr>"

section \<open>Library functions of Go used by the constructor\<close>

text \<open>\<^verbatim>\<open>strings.HasPrefix(s, prefix)\<close>: \<^verbatim>\<open>len(s) >= len(prefix) && s[:len(prefix)] == prefix\<close>.\<close>

definition HasPrefix :: "string \<Rightarrow> string \<Rightarrow> bool" where
  "HasPrefix s p = (length p \<le> length s \<and> take (length p) s = p)"

text \<open>
  \<^verbatim>\<open>strings.Trim(s, cutset)\<close> removes from \<^verbatim>\<open>s\<close> all trailing and all leading characters
  that occur in \<^verbatim>\<open>cutset\<close> (a set of characters, not a prefix).
\<close>

definition Trim :: "string \<Rightarrow> string \<Rightarrow> string" where
  "Trim s cutset =
     dropWhile (\<lambda>c. c \<in> set cutset) (rev (dropWhile (\<lambda>c. c \<in> set cutset) (rev s)))"

section \<open>Construction\<close>

text \<open>
  The body of the inner loop of \<^verbatim>\<open>NewMachine\<close> over \<^verbatim>\<open>e.Src\<close>: one table entry, and the
  source and the destination added to \<^verbatim>\<open>allStatus\<close>.
\<close>

definition addSrc ::
  "EventDesc \<Rightarrow> (eKey \<rightharpoonup> string) \<times> string set \<Rightarrow> string \<Rightarrow> (eKey \<rightharpoonup> string) \<times> string set"
where
  "addSrc e acc s =
     (case acc of (tr, allStatus) \<Rightarrow>
        (tr(\<lparr>event = Name e, src = s\<rparr> \<mapsto> Dst e), insert (Dst e) (insert s allStatus)))"

text \<open>The body of the outer loop over \<^verbatim>\<open>events\<close>; the state is (table, allEvents, allStatus).\<close>

definition addEvent ::
  "(eKey \<rightharpoonup> string) \<times> string set \<times> string set \<Rightarrow> EventDesc
     \<Rightarrow> (eKey \<rightharpoonup> string) \<times> string set \<times> string set"
where
  "addEvent acc e =
     (case acc of (tr, allEvents, allStatus) \<Rightarrow>
        (case foldl (addSrc e) (tr, allStatus) (Src e) of (tr', allStatus') \<Rightarrow>
           (tr', insert (Name e) allEvents, allStatus')))"

text \<open>
  The \<^verbatim>\<open>switch\<close> of the callback loop: the target and the callback type computed for one
  callback name. \<^verbatim>\<open>callbackType\<close> starts as the zero value \<^verbatim>\<open>callbackNone\<close>.
\<close>

definition resolveCallback :: "string set \<Rightarrow> string set \<Rightarrow> string \<Rightarrow> cKey" where
  "resolveCallback allEvents allStatus name =
     (if HasPrefix name ''before_'' then
        (let t = Trim name ''before_'' in
         \<lparr>target = t,
          callbackType = (if t = ''event'' then callbackBeforeEvent
                          else if t \<in> allEvents then callbackBeforeEvent else callbackNone)\<rparr>)
      else if HasPrefix name ''leave_'' then
        (let t = Trim name ''leave_'' in
         \<lparr>target = t,
          callbackType = (if t = ''state'' then callbackLeaveState
                          else if t \<in> allStatus then callbackLeaveState else callbackNone)\<rparr>)
      else if HasPrefix name ''enter_'' then
        (let t = Trim name ''enter_'' in
         \<lparr>target = t,
          callbackType = (if t = ''state'' then callbackEnterState
                          else if t \<in> allStatus then callbackEnterState else callbackNone)\<rparr>)
      else if HasPrefix name ''after_'' then
        (let t = Trim name ''after_'' in
         \<lparr>target = t,
          callbackType = (if t = ''event'' then callbackAfterEvent
                          else if t \<in> allEvents then callbackAfterEvent else callbackNone)\<rparr>)
      else
        \<lparr>target = name,
         callbackType = (if name \<in> allStatus then callbackEnterState
                         else if name \<in> allEvents then callbackAfterEvent else callbackNone)\<rparr>)"

text \<open>The body of the callback loop: the entry is stored unless the type is \<^verbatim>\<open>callbackNone\<close>.\<close>

definition addCallback ::
  "string set \<Rightarrow> string set \<Rightarrow> (cKey \<rightharpoonup> 'a Callback) \<Rightarrow> string \<times> 'a Callback
     \<Rightarrow> (cKey \<rightharpoonup> 'a Callback)"
where
  "addCallback allEvents allStatus cbs entry =
     (case entry of (name, fn) \<Rightarrow>
        (let k = resolveCallback allEvents allStatus name in
         if callbackType k \<noteq> callbackNone then cbs(k \<mapsto> fn) else cbs))"

text \<open>
  \<^verbatim>\<open>NewMachine(initialState, events, callbacks)\<close>. The map \<^verbatim>\<open>callbacks\<close> is given as the
  list of its entries in the order in which \<^verbatim>\<open>range\<close> visits them.
\<close>

definition NewMachine ::
  "string \<Rightarrow> EventDesc list \<Rightarrow> (string \<times> 'a Callback) list \<Rightarrow> 'a Machine"
where
  "NewMachine initialState events cbs =
     (case foldl addEvent (Map.empty, {}, {}) events of (tr, allEvents, allStatus) \<Rightarrow>
        \<lparr>current = initialState,
         transitions = tr,
         callbacks = foldl (addCallback allEvents allStatus) Map.empty cbs,
         transition = None\<rparr>)"

section \<open>Queries and SetState\<close>

definition Current :: "'a Machine \<Rightarrow> string" where
  "Current m = current m"

definition Is :: "'a Machine \<Rightarrow> string \<Rightarrow> bool" where
  "Is m state = (state = Current m)"

definition SetState :: "'a Machine \<Rightarrow> string \<Rightarrow> 'a Machine" where
  "SetState m state = m\<lparr>current := state\<rparr>"

definition Can :: "'a Machine \<Rightarrow> string \<Rightarrow> bool" where
  "Can m name =
     (transitions m \<lparr>event = name, src = current m\<rparr> \<noteq> None \<and> transition m = None)"

text \<open>
  \<^verbatim>\<open>AvailableTransitions\<close> ranges over the keys of the table; \<open>ord\<close> is the order in which
  this \<^verbatim>\<open>range\<close> visits them (Go leaves it unspecified).
\<close>

definition AvailableTransitions :: "'a Machine \<Rightarrow> eKey list \<Rightarrow> string list" where
  "AvailableTransitions m ord = map event (filter (\<lambda>key. src key = current m) ord)"

definition Cannot :: "'a Machine \<Rightarrow> string \<Rightarrow> bool" where
  "Cannot m name = (\<not> Can m name)"

section \<open>Callback phases\<close>

definition view :: "'a Machine \<Rightarrow> MachineView" where
  "view m = \<lparr>view_current = current m, view_pending = (transition m \<noteq> None)\<rparr>"

text \<open>
  The second block of \<^verbatim>\<open>beforeEventCallbacks\<close>: the wildcard callback, found under the
  empty target. \<open>t\<close> is the log of the calls made so far.
\<close>

definition beforeEventWildcard ::
  "'a Machine \<Rightarrow> 'a Event \<Rightarrow> 'a trace \<Rightarrow> error option \<times> 'a Event \<times> 'a trace"
where
  "beforeEventWildcard m e t =
     (let k = \<lparr>target = '''', callbackType = callbackBeforeEvent\<rparr> in
      case callbacks m k of
        Some fn \<Rightarrow>
          (let e' = fn (view m) e in
           if canceled e' then (Some (CanceledError (Err e')), e', t @ [(k, e')])
           else (None, e', t @ [(k, e')]))
      | None \<Rightarrow> (None, e, t))"

text \<open>
  \<^verbatim>\<open>beforeEventCallbacks\<close>: the specific callback is looked up under \<^verbatim>\<open>m.current\<close>. The
  result is the returned error, the context as the phase leaves it, and the calls made.
\<close>

definition beforeEventCallbacks ::
  "'a Machine \<Rightarrow> 'a Event \<Rightarrow> error option \<times> 'a Event \<times> 'a trace"
where
  "beforeEventCallbacks m e =
     (let k = \<lparr>target = current m, callbackType = callbackBeforeEvent\<rparr> in
      case callbacks m k of
        Some fn \<Rightarrow>
          (let e' = fn (view m) e in
           if canceled e' then (Some (CanceledError (Err e')), e', [(k, e')])
           else beforeEventWildcard m e' [(k, e')])
      | None \<Rightarrow> beforeEventWildcard m e [])"

text \<open>
  The second block of \<^verbatim>\<open>leaveStateCallbacks\<close>. After the call, cancellation is tested
  before deferral.
\<close>

definition leaveStateWildcard ::
  "'a Machine \<Rightarrow> 'a Event \<Rightarrow> 'a trace \<Rightarrow> error option \<times> 'a Event \<times> 'a trace"
where
  "leaveStateWildcard m e t =
     (let k = \<lparr>target = '''', callbackType = callbackLeaveState\<rparr> in
      case callbacks m k of
        Some fn \<Rightarrow>
          (let e' = fn (view m) e in
           if canceled e' then (Some (CanceledError (Err e')), e', t @ [(k, e')])
           else if async e' then (Some (AsyncError (Err e')), e', t @ [(k, e')])
           else (None, e', t @ [(k, e')]))
      | None \<Rightarrow> (None, e, t))"

text \<open>\<^verbatim>\<open>leaveStateCallbacks\<close>: the specific callback is looked up under \<^verbatim>\<open>m.current\<close>.\<close>

definition leaveStateCallbacks ::
  "'a Machine \<Rightarrow> 'a Event \<Rightarrow> error option \<times> 'a Event \<times> 'a trace"
where
  "leaveStateCallbacks m e =
     (let k = \<lparr>target = current m, callbackType = callbackLeaveState\<rparr> in
      case callbacks m k of
        Some fn \<Rightarrow>
          (let e' = fn (view m) e in
           if canceled e' then (Some (CanceledError (Err e')), e', [(k, e')])
           else if async e' then (Some (AsyncError (Err e')), e', [(k, e')])
           else leaveStateWildcard m e' [(k, e')])
      | None \<Rightarrow> leaveStateWildcard m e [])"

text \<open>
  One optional call \<^verbatim>\<open>if fn, ok := m.callbacks[k]; ok { fn(e) }\<close> of the two phases that
  return nothing.
\<close>

definition callIfPresent :: "'a Machine \<Rightarrow> cKey \<Rightarrow> 'a Event \<Rightarrow> 'a Event \<times> 'a trace" where
  "callIfPresent m k e =
     (case callbacks m k of
        Some fn \<Rightarrow> (let e' = fn (view m) e in (e', [(k, e')]))
      | None \<Rightarrow> (e, []))"

definition enterStateCallbacks :: "'a Machine \<Rightarrow> 'a Event \<Rightarrow> 'a Event \<times> 'a trace" where
  "enterStateCallbacks m e =
     (let (e1, t1) = callIfPresent m \<lparr>target = current m, callbackType = callbackEnterState\<rparr> e;
          (e2, t2) = callIfPresent m \<lparr>target = '''', callbackType = callbackEnterState\<rparr> e1
      in (e2, t1 @ t2))"

definition afterEventCallbacks :: "'a Machine \<Rightarrow> 'a Event \<Rightarrow> 'a Event \<times> 'a trace" where
  "afterEventCallbacks m e =
     (let (e1, t1) = callIfPresent m \<lparr>target = Event_Event e, callbackType = callbackAfterEvent\<rparr> e;
          (e2, t2) = callIfPresent m \<lparr>target = '''', callbackType = callbackAfterEvent\<rparr> e1
      in (e2, t1 @ t2))"

section \<open>The transition executor\<close>

text \<open>
  The closure stored by \<^verbatim>\<open>Event\<close> in \<^verbatim>\<open>m.transition\<close>, applied to the machine: it writes the
  destination and runs the enter-state and the after-event callbacks on the captured
  context. It returns the machine, the context and the calls made.
\<close>

definition transitionClosure ::
  "'a Machine \<Rightarrow> string \<Rightarrow> 'a Event \<Rightarrow> 'a Machine \<times> 'a Event \<times> 'a trace"
where
  "transitionClosure m dst e =
     (let m1 = m\<lparr>current := dst\<rparr>;
          (e1, t1) = enterStateCallbacks m1 e;
          (e2, t2) = afterEventCallbacks m1 e1
      in (m1, e2, t1 @ t2))"

text \<open>
  \<^verbatim>\<open>transitionerStruct.transition\<close>. Besides the error and the machine, the model returns
  the context as the closure left it (the caller holds a pointer to it), and the calls.
\<close>

definition transitionerStruct_transition ::
  "'a Machine \<Rightarrow> error option \<times> 'a Machine \<times> 'a Event option \<times> 'a trace"
where
  "transitionerStruct_transition m =
     (case transition m of
        None \<Rightarrow> (Some NotInTransitionError, m, None, [])
      | Some (dst, e) \<Rightarrow>
          (case transitionClosure m dst e of (m1, e1, tr) \<Rightarrow>
             (None, m1\<lparr>transition := None\<rparr>, Some e1, tr)))"

definition doTransition ::
  "'a Machine \<Rightarrow> error option \<times> 'a Machine \<times> 'a Event option \<times> 'a trace"
where
  "doTransition m = transitionerStruct_transition m"

section \<open>Triggering an event\<close>

text \<open>The type assertion \<^verbatim>\<open>err.(CanceledError)\<close>.\<close>

fun isCanceledError :: "error \<Rightarrow> bool" where
  "isCanceledError (CanceledError x) = True"
| "isCanceledError y = False"

text \<open>
  The context built at line 170:
  \<^verbatim>\<open>e := &Event{m, event, m.current, dst, nil, args, false, false}\<close>.
\<close>

definition newEvent :: "'a Machine \<Rightarrow> string \<Rightarrow> 'a list \<Rightarrow> string \<Rightarrow> 'a Event" where
  "newEvent m name args dst =
     \<lparr>Event_Event = name, Event_Src = current m, Event_Dst = dst, Err = None,
      Args = args, canceled = False, async = False\<rparr>"

text \<open>
  Lines 170 to 207 of \<^verbatim>\<open>Event\<close>, reached with the looked-up value \<open>dst\<close>. The closure
  shares the context with the callbacks, so the slot always shows the context as the
  leave-state callbacks left it. \<^verbatim>\<open>return e.Err\<close> reads the context after the closure
  has run.
\<close>

definition Event_from ::
  "'a Machine \<Rightarrow> string \<Rightarrow> 'a list \<Rightarrow> string \<Rightarrow> error option \<times> 'a Machine \<times> 'a trace"
where
  "Event_from m name args dst =
     (case beforeEventCallbacks m (newEvent m name args dst) of
        (Some err, e1, tr1) \<Rightarrow> (Some err, m, tr1)
      | (None, e1, tr1) \<Rightarrow>
          if current m = dst then
            (case afterEventCallbacks m e1 of (e2, tr2) \<Rightarrow>
               (Some (NoTransitionError (Err e2)), m, tr1 @ tr2))
          else
            (case leaveStateCallbacks (m\<lparr>transition := Some (dst, e1)\<rparr>) e1 of
               (Some err, e2, tr2) \<Rightarrow>
                 (Some err,
                  (if isCanceledError err then m\<lparr>transition := None\<rparr>
                   else m\<lparr>transition := Some (dst, e2)\<rparr>),
                  tr1 @ tr2)
             | (None, e2, tr2) \<Rightarrow>
                 (case doTransition (m\<lparr>transition := Some (dst, e2)\<rparr>) of
                    (Some err, m3, e3, tr3) \<Rightarrow> (Some InternalError, m3, tr1 @ tr2 @ tr3)
                  | (None, m3, e3, tr3) \<Rightarrow>
                      (Err (case e3 of Some e' \<Rightarrow> e' | None \<Rightarrow> e2), m3,
                       tr1 @ tr2 @ tr3))))"

text \<open>
  \<^verbatim>\<open>Machine.Event(event, args...)\<close>. \<open>ord\<close> is the order in which the \<^verbatim>\<open>range\<close> over the
  table visits the keys. The loop returns in its first iteration; with an empty table
  it has no iteration, and the function goes on with \<^verbatim>\<open>dst\<close> the zero value.
\<close>

definition Event ::
  "'a Machine \<Rightarrow> eKey list \<Rightarrow> string \<Rightarrow> 'a list \<Rightarrow> error option \<times> 'a Machine \<times> 'a trace"
where
  "Event m ord name args =
     (if transition m \<noteq> None then (Some (InTransitionError name), m, [])
      else case transitions m \<lparr>event = name, src = current m\<rparr> of
             Some dst \<Rightarrow> Event_from m name args dst
           | None \<Rightarrow>
               (case ord of
                  ekey # rest \<Rightarrow>
                    if event ekey = name
                    then (Some (InvalidEventError name (current m)), m, [])
                    else (Some (UnknownEventError name), m, [])
                | [] \<Rightarrow> Event_from m name args ''''))"

section \<open>Sequences of operations\<close>

text \<open>
  The operations that change a machine: triggering an event (with the order of the
  \<^verbatim>\<open>range\<close> of that call), resuming through the transition executor, and \<^verbatim>\<open>SetState\<close>.
  The queries change nothing and are not listed.
\<close>

datatype 'a Op =
    OpEvent "eKey list" string "'a list"
  | OpResume
  | OpSetState string

fun step :: "'a Machine \<Rightarrow> 'a Op \<Rightarrow> error option \<times> 'a Machine \<times> 'a trace" where
  "step m (OpEvent ord name args) = Event m ord name args"
| "step m OpResume = (case doTransition m of (r, m', e, t) \<Rightarrow> (r, m', t))"
| "step m (OpSetState s) = (None, SetState m s, [])"

text \<open>Running a sequence: the final machine and, for each operation, what it returned.\<close>

fun run ::
  "'a Machine \<Rightarrow> 'a Op list \<Rightarrow> 'a Machine \<times> ('a Op \<times> error option \<times> 'a trace) list"
where
  "run m [] = (m, [])"
| "run m (x # xs) =
     (case step m x of (r, m', t) \<Rightarrow>
        (case run m' xs of (mf, log) \<Rightarrow> (mf, (x, r, t) # log)))"

text \<open>The context after the calls logged in \<open>t\<close>, starting from \<open>e\<close>.\<close>

definition ctxAfter :: "'a Event \<Rightarrow> 'a trace \<Rightarrow> 'a Event" where
  "ctxAfter e t = last (e # map snd t)"

text \<open>
  A trigger was deferred: its last callback call was a leave-state callback that left
  the async flag set and the cancel flag clear.
\<close>

definition deferred :: "'a trace \<Rightarrow> bool" where
  "deferred t =
     (t \<noteq> [] \<and> callbackType (fst (last t)) = callbackLeaveState
      \<and> async (snd (last t)) \<and> \<not> canceled (snd (last t)))"

text \<open>
  Whether the slot is occupied, computed from what the operations returned: a trigger
  made while the slot is occupied leaves it so, a trigger made while it is empty
  occupies it exactly when it was deferred, a resume empties it.
\<close>

fun pendingAfter :: "bool \<Rightarrow> ('a Op \<times> error option \<times> 'a trace) list \<Rightarrow> bool" where
  "pendingAfter p [] = p"
| "pendingAfter p ((OpEvent ord name args, r, t) # log) = pendingAfter (p \<or> deferred t) log"
| "pendingAfter p ((OpResume, r, t) # log) = pendingAfter False log"
| "pendingAfter p ((OpSetState s, r, t) # log) = pendingAfter p log"

fun isAsyncError :: "error option \<Rightarrow> bool" where
  "isAsyncError (Some (AsyncError x)) = True"
| "isAsyncError y = False"

text \<open>
  The same in the words of the specification: the slot is occupied exactly when the
  most recent trigger returned \<open>AsyncError\<close> and no resume followed it.
\<close>

fun pendingClaimed :: "bool \<Rightarrow> ('a Op \<times> error option \<times> 'a trace) list \<Rightarrow> bool" where
  "pendingClaimed p [] = p"
| "pendingClaimed p ((OpEvent ord name args, r, t) # log) = pendingClaimed (isAsyncError r) log"
| "pendingClaimed p ((OpResume, r, t) # log) = pendingClaimed False log"
| "pendingClaimed p ((OpSetState s, r, t) # log) = pendingClaimed p log"

text \<open>
  The results after which the specification promises an empty slot: nil and the errors
  other than \<open>InTransitionError\<close> and \<open>AsyncError\<close>.
\<close>

fun settled :: "error option \<Rightarrow> bool" where
  "settled None = True"
| "settled (Some (UnknownEventError n)) = True"
| "settled (Some (InvalidEventError n s)) = True"
| "settled (Some (NoTransitionError x)) = True"
| "settled (Some (CanceledError x)) = True"
| "settled (Some InternalError) = True"
| "settled (Some y) = False"

text \<open>
  The keys under which the closure finds its callbacks: the enter-state callbacks of
  the destination, and the after-event callbacks of the event named by the context.
\<close>

definition enterKeys :: "'a Machine \<Rightarrow> string \<Rightarrow> cKey list" where
  "enterKeys m dst =
     filter (\<lambda>k. callbacks m k \<noteq> None)
       [\<lparr>target = dst, callbackType = callbackEnterState\<rparr>,
        \<lparr>target = '''', callbackType = callbackEnterState\<rparr>]"

definition afterKeys :: "'a Machine \<Rightarrow> 'a Event \<Rightarrow> cKey list" where
  "afterKeys m e =
     filter (\<lambda>k. callbacks m k \<noteq> None)
       [\<lparr>target = Event_Event e, callbackType = callbackAfterEvent\<rparr>,
        \<lparr>target = '''', callbackType = callbackAfterEvent\<rparr>]"

text \<open>
  The log of calling, in the order of the list, each callback that the registry holds
  under a key of the list: every callback is applied to the context that the previous
  one left, and the entry shows the context it returned. Keys without a callback are
  passed over.
\<close>

fun callInOrder ::
  "(cKey \<rightharpoonup> 'a Callback) \<Rightarrow> MachineView \<Rightarrow> 'a Event \<Rightarrow> cKey list \<Rightarrow> 'a trace"
where
  "callInOrder cbs v e [] = []"
| "callInOrder cbs v e (k # ks) =
     (case cbs k of
        None \<Rightarrow> callInOrder cbs v e ks
      | Some fn \<Rightarrow> (k, fn v e) # callInOrder cbs v (fn v e) ks)"

text \<open>
  The commit in the words of the specification: with the machine in the destination
  and the slot still occupied, run the enter-state callbacks, specific then wildcard,
  then the after-event callbacks, specific (for the event of the context) then
  wildcard.
\<close>

definition expectedEnterLog ::
  "(cKey \<rightharpoonup> 'a Callback) \<Rightarrow> string \<Rightarrow> 'a Event \<Rightarrow> 'a trace"
where
  "expectedEnterLog cbs dst e =
     callInOrder cbs \<lparr>view_current = dst, view_pending = True\<rparr> e
       [\<lparr>target = dst, callbackType = callbackEnterState\<rparr>,
        \<lparr>target = '''', callbackType = callbackEnterState\<rparr>]"

definition expectedAfterLog ::
  "(cKey \<rightharpoonup> 'a Callback) \<Rightarrow> MachineView \<Rightarrow> 'a Event \<Rightarrow> 'a trace"
where
  "expectedAfterLog cbs v e =
     callInOrder cbs v e
       [\<lparr>target = Event_Event e, callbackType = callbackAfterEvent\<rparr>,
        \<lparr>target = '''', callbackType = callbackAfterEvent\<rparr>]"

definition expectedCommitLog ::
  "(cKey \<rightharpoonup> 'a Callback) \<Rightarrow> string \<Rightarrow> 'a Event \<Rightarrow> 'a trace"
where
  "expectedCommitLog cbs dst e =
     expectedEnterLog cbs dst e
     @ expectedAfterLog cbs \<lparr>view_current = dst, view_pending = True\<rparr>
         (ctxAfter e (expectedEnterLog cbs dst e))"

text \<open>
  The four keys that a commit looks up, and whether a commit calls each registered
  callback among them exactly once.
\<close>

definition commitKeys :: "string \<Rightarrow> string \<Rightarrow> cKey list" where
  "commitKeys dst name =
     [\<lparr>target = dst, callbackType = callbackEnterState\<rparr>,
      \<lparr>target = '''', callbackType = callbackEnterState\<rparr>,
      \<lparr>target = name, callbackType = callbackAfterEvent\<rparr>,
      \<lparr>target = '''', callbackType = callbackAfterEvent\<rparr>]"

definition eachOnce :: "(cKey \<rightharpoonup> 'a Callback) \<Rightarrow> cKey list \<Rightarrow> 'a trace \<Rightarrow> bool" where
  "eachOnce cbs ks t =
     list_all (\<lambda>k. cbs k = None \<or> count_list (map fst t) k = 1) ks"

section \<open>Example machines\<close>

text \<open>The scenario of the specification: \<open>scan\<close> from idle to scanning, \<open>finish\<close> back.\<close>

definition scanEvents :: "EventDesc list" where
  "scanEvents =
     [\<lparr>Name = ''scan'', Src = [''idle''], Dst = ''scanning''\<rparr>,
      \<lparr>Name = ''finish'', Src = [''scanning''], Dst = ''idle''\<rparr>]"

definition scanner :: "string \<Rightarrow> (string \<times> nat Callback) list \<Rightarrow> nat Machine" where
  "scanner initialState cbs = NewMachine initialState scanEvents cbs"

text \<open>A traffic light with a self-loop \<open>hold\<close> on green.\<close>

definition lightEvents :: "EventDesc list" where
  "lightEvents =
     [\<lparr>Name = ''warn'', Src = [''green''], Dst = ''yellow''\<rparr>,
      \<lparr>Name = ''panic'', Src = [''yellow''], Dst = ''red''\<rparr>,
      \<lparr>Name = ''calm'', Src = [''red''], Dst = ''green''\<rparr>,
      \<lparr>Name = ''hold'', Src = [''green''], Dst = ''green''\<rparr>]"

definition lightKeys :: "eKey list" where
  "lightKeys =
     [\<lparr>event = ''warn'', src = ''green''\<rparr>, \<lparr>event = ''panic'', src = ''yellow''\<rparr>,
      \<lparr>event = ''calm'', src = ''red''\<rparr>, \<lparr>event = ''hold'', src = ''green''\<rparr>]"

definition lights :: "(string \<times> nat Callback) list \<Rightarrow> nat Machine" where
  "lights cbs = NewMachine ''green'' lightEvents cbs"

text \<open>Callbacks: one that cancels with an error, one that defers, one that does both,
  one that attaches an error, one that does nothing.\<close>

definition cancelWith :: "error option \<Rightarrow> nat Callback" where
  "cancelWith x v e = Cancel e [x]"

definition deferIt :: "nat Callback" where
  "deferIt v e = Async e"

definition cancelAndDefer :: "nat Callback" where
  "cancelAndDefer v e = Async (Cancel e [])"

definition attach :: "error \<Rightarrow> nat Callback" where
  "attach x v e = e\<lparr>Err := Some x\<rparr>"

definition keep :: "nat Callback" where
  "keep v e = e"

text \<open>
  The traffic light with one more descriptor whose event name and source state are the
  empty string. The empty string is then a known event and a known state, and the
  callback names \<open>before_\<close>, \<open>leave_\<close>, \<open>enter_\<close> and \<open>after_\<close> resolve to the empty target,
  under which the phases look the wildcard callbacks up.
\<close>

definition lightEventsW :: "EventDesc list" where
  "lightEventsW = lightEvents @ [\<lparr>Name = '''', Src = [''''], Dst = ''green''\<rparr>]"

definition lightKeysW :: "eKey list" where
  "lightKeysW = lightKeys @ [\<lparr>event = '''', src = ''''\<rparr>]"

definition lightsW :: "(string \<times> nat Callback) list \<Rightarrow> nat Machine" where
  "lightsW cbs = NewMachine ''green'' lightEventsW cbs"

text \<open>A machine whose only transition leads to the state named by the empty string.\<close>

definition stopper :: "(string \<times> nat Callback) list \<Rightarrow> nat Machine" where
  "stopper cbs = NewMachine ''busy'' [\<lparr>Name = ''stop'', Src = [''busy''], Dst = ''''\<rparr>] cbs"

text \<open>A callback that leaves a mark in the arguments each time it is called.\<close>

definition tick :: "nat Callback" where
  "tick v e = e\<lparr>Args := 0 # Args e\<rparr>"

section \<open>What a phase returns\<close>

lemma last_of_trace:
  assumes "p \<in> set t" and "p \<notin> set (butlast t)"
  shows "p = last t"
  using assms by (induction t) (auto split: if_splits)

lemma before_result:
  assumes "beforeEventCallbacks m e = (r, e', t)"
  shows "e' = ctxAfter e t"
    and "\<forall>p\<in>set t. callbackType (fst p) = callbackBeforeEvent"
    and "r = None \<Longrightarrow> \<forall>p\<in>set t. \<not> canceled (snd p)"
    and "r \<noteq> None \<Longrightarrow> t \<noteq> [] \<and> canceled (snd (last t))
           \<and> r = Some (CanceledError (Err (snd (last t))))
           \<and> (\<forall>p\<in>set (butlast t). \<not> canceled (snd p))"
  using assms
  by (auto simp: beforeEventCallbacks_def beforeEventWildcard_def ctxAfter_def Let_def
           split: option.splits if_splits)

lemma leave_result:
  assumes "leaveStateCallbacks m e = (r, e', t)"
  shows "e' = ctxAfter e t"
    and "\<forall>p\<in>set t. callbackType (fst p) = callbackLeaveState"
    and "r = None \<Longrightarrow> \<forall>p\<in>set t. \<not> canceled (snd p) \<and> \<not> async (snd p)"
    and "r \<noteq> None \<Longrightarrow> t \<noteq> [] \<and> e' = snd (last t)
           \<and> (\<forall>p\<in>set (butlast t). \<not> canceled (snd p) \<and> \<not> async (snd p))
           \<and> (if canceled (snd (last t)) then r = Some (CanceledError (Err (snd (last t))))
               else async (snd (last t)) \<and> r = Some (AsyncError (Err (snd (last t)))))"
  using assms
  by (auto simp: leaveStateCallbacks_def leaveStateWildcard_def ctxAfter_def Let_def
           split: option.splits if_splits)

lemma enter_result:
  assumes "enterStateCallbacks m e = (e', t)"
  shows "e' = ctxAfter e t"
    and "map fst t = filter (\<lambda>k. callbacks m k \<noteq> None)
           [\<lparr>target = current m, callbackType = callbackEnterState\<rparr>,
            \<lparr>target = '''', callbackType = callbackEnterState\<rparr>]"
    and "\<forall>p\<in>set t. callbackType (fst p) = callbackEnterState"
  using assms
  by (auto simp: enterStateCallbacks_def callIfPresent_def ctxAfter_def Let_def
           split: option.splits if_splits prod.splits)

lemma after_result:
  assumes "afterEventCallbacks m e = (e', t)"
  shows "e' = ctxAfter e t"
    and "map fst t = filter (\<lambda>k. callbacks m k \<noteq> None)
           [\<lparr>target = Event_Event e, callbackType = callbackAfterEvent\<rparr>,
            \<lparr>target = '''', callbackType = callbackAfterEvent\<rparr>]"
    and "\<forall>p\<in>set t. callbackType (fst p) = callbackAfterEvent"
  using assms
  by (auto simp: afterEventCallbacks_def callIfPresent_def ctxAfter_def Let_def
           split: option.splits if_splits prod.splits)

lemma before_keys:
  assumes "beforeEventCallbacks m e = (None, e', t)"
  shows "map fst t = filter (\<lambda>k. callbacks m k \<noteq> None)
           [\<lparr>target = current m, callbackType = callbackBeforeEvent\<rparr>,
            \<lparr>target = '''', callbackType = callbackBeforeEvent\<rparr>]"
  using assms
  by (auto simp: beforeEventCallbacks_def beforeEventWildcard_def Let_def
           split: option.splits if_splits)

lemma leave_keys:
  assumes "leaveStateCallbacks m e = (None, e', t)"
  shows "map fst t = filter (\<lambda>k. callbacks m k \<noteq> None)
           [\<lparr>target = current m, callbackType = callbackLeaveState\<rparr>,
            \<lparr>target = '''', callbackType = callbackLeaveState\<rparr>]"
  using assms
  by (auto simp: leaveStateCallbacks_def leaveStateWildcard_def Let_def
           split: option.splits if_splits)

lemma ctxAfter_append: "ctxAfter (ctxAfter e t) u = ctxAfter e (t @ u)"
  by (simp add: ctxAfter_def)

section \<open>The executor\<close>

lemma doTransition_pending:
  assumes "transition m = Some (dst, e)"
    and "enterStateCallbacks (m\<lparr>current := dst\<rparr>) e = (e1, t1)"
    and "afterEventCallbacks (m\<lparr>current := dst\<rparr>) e1 = (e2, t2)"
  shows "doTransition m = (None, m\<lparr>current := dst, transition := None\<rparr>, Some e2, t1 @ t2)"
  using assms
  by (simp add: doTransition_def transitionerStruct_transition_def transitionClosure_def)

lemma doTransition_idle:
  "transition m = None \<Longrightarrow> doTransition m = (Some NotInTransitionError, m, None, [])"
  by (simp add: doTransition_def transitionerStruct_transition_def)

section \<open>The paths through a trigger\<close>

lemma Event_from_elim:
  assumes "Event_from m name args dst = (r, m', tr)"
  obtains
    (before_stop) err e1 t1 where
      "beforeEventCallbacks m (newEvent m name args dst) = (Some err, e1, t1)"
      "r = Some err" "m' = m" "tr = t1"
  | (no_transition) e1 t1 e2 t2 where
      "beforeEventCallbacks m (newEvent m name args dst) = (None, e1, t1)"
      "current m = dst" "afterEventCallbacks m e1 = (e2, t2)"
      "r = Some (NoTransitionError (Err e2))" "m' = m" "tr = t1 @ t2"
  | (leave_stop) e1 t1 err e2 t2 where
      "beforeEventCallbacks m (newEvent m name args dst) = (None, e1, t1)"
      "current m \<noteq> dst"
      "leaveStateCallbacks (m\<lparr>transition := Some (dst, e1)\<rparr>) e1 = (Some err, e2, t2)"
      "r = Some err"
      "m' = (if isCanceledError err then m\<lparr>transition := None\<rparr>
             else m\<lparr>transition := Some (dst, e2)\<rparr>)"
      "tr = t1 @ t2"
  | (commit) e1 t1 e2 t2 e3 t3 e4 t4 where
      "beforeEventCallbacks m (newEvent m name args dst) = (None, e1, t1)"
      "current m \<noteq> dst"
      "leaveStateCallbacks (m\<lparr>transition := Some (dst, e1)\<rparr>) e1 = (None, e2, t2)"
      "enterStateCallbacks (m\<lparr>transition := Some (dst, e2), current := dst\<rparr>) e2 = (e3, t3)"
      "afterEventCallbacks (m\<lparr>transition := Some (dst, e2), current := dst\<rparr>) e3 = (e4, t4)"
      "r = Err e4" "m' = m\<lparr>current := dst, transition := None\<rparr>"
      "tr = t1 @ t2 @ t3 @ t4"
proof -
  let ?e = "newEvent m name args dst"
  obtain rb e1 t1 where b: "beforeEventCallbacks m ?e = (rb, e1, t1)"
    by (cases "beforeEventCallbacks m ?e") auto
  show thesis
  proof (cases rb)
    case (Some err)
    from assms b Some have "r = Some err \<and> m' = m \<and> tr = t1"
      by (simp add: Event_from_def)
    with b Some show thesis by (intro before_stop) simp_all
  next
    case None
    note rbNone = this
    show thesis
    proof (cases "current m = dst")
      case True
      obtain e2 t2 where a: "afterEventCallbacks m e1 = (e2, t2)"
        by (cases "afterEventCallbacks m e1") auto
      from assms b rbNone True a
      have "r = Some (NoTransitionError (Err e2)) \<and> m' = m \<and> tr = t1 @ t2"
        by (simp add: Event_from_def)
      with b rbNone True a show thesis by (intro no_transition) simp_all
    next
      case False
      obtain rl e2 t2
        where l: "leaveStateCallbacks (m\<lparr>transition := Some (dst, e1)\<rparr>) e1 = (rl, e2, t2)"
        by (cases "leaveStateCallbacks (m\<lparr>transition := Some (dst, e1)\<rparr>) e1") auto
      show thesis
      proof (cases rl)
        case (Some err)
        from assms b rbNone False l Some
        have "r = Some err \<and> tr = t1 @ t2 \<and>
              m' = (if isCanceledError err then m\<lparr>transition := None\<rparr>
                    else m\<lparr>transition := Some (dst, e2)\<rparr>)"
          by (simp add: Event_from_def)
        with b rbNone False l Some show thesis by (intro leave_stop) simp_all
      next
        case None
        let ?m2 = "m\<lparr>transition := Some (dst, e2), current := dst\<rparr>"
        obtain e3 t3 where en: "enterStateCallbacks ?m2 e2 = (e3, t3)"
          by (cases "enterStateCallbacks ?m2 e2") auto
        obtain e4 t4 where af: "afterEventCallbacks ?m2 e3 = (e4, t4)"
          by (cases "afterEventCallbacks ?m2 e3") auto
        have d: "doTransition (m\<lparr>transition := Some (dst, e2)\<rparr>)
                   = (None, m\<lparr>current := dst, transition := None\<rparr>, Some e4, t3 @ t4)"
          using doTransition_pending [of "m\<lparr>transition := Some (dst, e2)\<rparr>" dst e2, OF _ en af]
          by simp
        from assms b rbNone False l None d
        have "r = Err e4" "m' = m\<lparr>current := dst, transition := None\<rparr>" "tr = t1 @ t2 @ t3 @ t4"
          by (simp_all add: Event_from_def)
        with b rbNone False l None en af show thesis by (intro commit) simp_all
      qed
    qed
  qed
qed

lemma Event_with_calls:
  assumes "Event m ord name args = (r, m', tr)" and "tr \<noteq> []"
  shows "transition m = None"
    and "Event_from m name args
           (case transitions m \<lparr>event = name, src = current m\<rparr> of Some d \<Rightarrow> d | None \<Rightarrow> '''')
         = (r, m', tr)"
proof -
  show n: "transition m = None"
    using assms by (cases "transition m") (auto simp: Event_def)
  show "Event_from m name args
           (case transitions m \<lparr>event = name, src = current m\<rparr> of Some d \<Rightarrow> d | None \<Rightarrow> '''')
         = (r, m', tr)"
    using assms n by (auto simp: Event_def split: if_splits option.splits list.splits)
qed

lemma Event_from_cancel:
  assumes "Event_from m name args dst = (r, m', tr)" and "transition m = None"
    and "p \<in> set tr"
    and "callbackType (fst p) = callbackBeforeEvent \<or> callbackType (fst p) = callbackLeaveState"
    and "canceled (snd p)"
  shows "r = Some (CanceledError (Err (snd p))) \<and> m' = m"
  using assms(1)
proof (cases rule: Event_from_elim)
  case (before_stop err e1 t1)
  from before_result(4) [OF before_stop(1)]
  have t: "t1 \<noteq> []" "canceled (snd (last t1))" "err = CanceledError (Err (snd (last t1)))"
    "\<forall>p\<in>set (butlast t1). \<not> canceled (snd p)" by auto
  from assms(3,5) before_stop(4) t(4) have "p = last t1"
    by (intro last_of_trace) auto
  with before_stop t show ?thesis by simp
next
  case (no_transition e1 t1 e2 t2)
  from before_result(3) [OF no_transition(1)] after_result(3) [OF no_transition(3)]
    assms(3,4,5) no_transition(6)
  show ?thesis by auto
next
  case (leave_stop e1 t1 err e2 t2)
  from leave_result(4) [OF leave_stop(3)]
  have t: "t2 \<noteq> []" "\<forall>p\<in>set (butlast t2). \<not> canceled (snd p) \<and> \<not> async (snd p)"
    "if canceled (snd (last t2)) then err = CanceledError (Err (snd (last t2)))
     else async (snd (last t2)) \<and> err = AsyncError (Err (snd (last t2)))" by auto
  from before_result(3) [OF leave_stop(1)] assms(3,5) leave_stop(6)
  have "p \<in> set t2" by auto
  with assms(5) t(2) have "p = last t2" by (intro last_of_trace) auto
  with t(3) assms(5) have "err = CanceledError (Err (snd p))" by simp
  with leave_stop assms(2) show ?thesis by simp
next
  case (commit e1 t1 e2 t2 e3 t3 e4 t4)
  from before_result(3) [OF commit(1)] leave_result(3) [OF commit(3)]
    enter_result(3) [OF commit(4)] after_result(3) [OF commit(5)]
    assms(3,4,5) commit(8)
  show ?thesis by auto
qed

lemma Event_from_async:
  assumes "Event_from m name args dst = (r, m', tr)"
    and "p \<in> set tr"
    and "callbackType (fst p) = callbackLeaveState"
    and "async (snd p)" and "\<not> canceled (snd p)"
  shows "r = Some (AsyncError (Err (snd p))) \<and> m' = m\<lparr>transition := Some (dst, snd p)\<rparr>
         \<and> p = last tr"
  using assms(1)
proof (cases rule: Event_from_elim)
  case (before_stop err e1 t1)
  from before_result(2) [OF before_stop(1)] assms(2,3) before_stop(4)
  show ?thesis by auto
next
  case (no_transition e1 t1 e2 t2)
  from before_result(2) [OF no_transition(1)] after_result(3) [OF no_transition(3)]
    assms(2,3) no_transition(6)
  show ?thesis by auto
next
  case (leave_stop e1 t1 err e2 t2)
  from leave_result(4) [OF leave_stop(3)]
  have t: "t2 \<noteq> []" "e2 = snd (last t2)"
    "\<forall>p\<in>set (butlast t2). \<not> canceled (snd p) \<and> \<not> async (snd p)"
    "if canceled (snd (last t2)) then err = CanceledError (Err (snd (last t2)))
     else async (snd (last t2)) \<and> err = AsyncError (Err (snd (last t2)))" by auto
  from before_result(2) [OF leave_stop(1)] assms(2,3) leave_stop(6)
  have "p \<in> set t2" by auto
  with assms(4) t(3) have pl: "p = last t2" by (intro last_of_trace) auto
  with t(4) assms(5) have "err = AsyncError (Err (snd p))" by simp
  with leave_stop t(1,2) pl show ?thesis by simp
next
  case (commit e1 t1 e2 t2 e3 t3 e4 t4)
  from before_result(2) [OF commit(1)] leave_result(3) [OF commit(3)]
    enter_result(3) [OF commit(4)] after_result(3) [OF commit(5)]
    assms(2,3,4) commit(8)
  show ?thesis by auto
qed

section \<open>The closure and the slot\<close>

lemma closure_calls:
  assumes "enterStateCallbacks n e = (e1, t1)" and "afterEventCallbacks n e1 = (e2, t2)"
    and "current n = dst" and "callbacks n = callbacks m"
  shows "map fst (t1 @ t2)
           = enterKeys m dst @ afterKeys m (ctxAfter e (take (length (enterKeys m dst)) (t1 @ t2)))"
proof -
  from enter_result(2) [OF assms(1)] assms(3,4)
  have k1: "map fst t1 = enterKeys m dst" by (simp add: enterKeys_def)
  then have "length t1 = length (enterKeys m dst)" by (metis length_map)
  then have tk: "take (length (enterKeys m dst)) (t1 @ t2) = t1" by simp
  from after_result(2) [OF assms(2)] assms(4) enter_result(1) [OF assms(1)]
  have "map fst t2 = afterKeys m (ctxAfter e t1)" by (simp add: afterKeys_def)
  with k1 tk show ?thesis by simp
qed

lemma doTransition_commits:
  assumes "transition n = Some (d, c)"
  shows "\<exists>e t. doTransition n = (None, n\<lparr>current := d, transition := None\<rparr>, Some e, t)
           \<and> map fst t = enterKeys n d
                @ afterKeys n (ctxAfter c (take (length (enterKeys n d)) t))"
proof -
  obtain e1 t1 where en: "enterStateCallbacks (n\<lparr>current := d\<rparr>) c = (e1, t1)"
    by (cases "enterStateCallbacks (n\<lparr>current := d\<rparr>) c") auto
  obtain e2 t2 where af: "afterEventCallbacks (n\<lparr>current := d\<rparr>) e1 = (e2, t2)"
    by (cases "afterEventCallbacks (n\<lparr>current := d\<rparr>) e1") auto
  have "map fst (t1 @ t2)
          = enterKeys n d @ afterKeys n (ctxAfter c (take (length (enterKeys n d)) (t1 @ t2)))"
    using closure_calls [OF en af, of d n] by simp
  with doTransition_pending [OF assms en af] show ?thesis by metis
qed

lemma Event_from_slot:
  assumes "Event_from m name args dst = (r, m', t)" and "transition m = None"
  shows "(transition m' \<noteq> None) = deferred t \<and> (settled r \<longrightarrow> transition m' = None)"
  using assms(1)
proof (cases rule: Event_from_elim)
  case (before_stop err e1 t1)
  from before_result(2) [OF before_stop(1)] before_result(4) [OF before_stop(1)]
  have "t1 \<noteq> []" "callbackType (fst (last t1)) = callbackBeforeEvent" by auto
  with before_stop assms(2) show ?thesis by (simp add: deferred_def)
next
  case (no_transition e1 t1 e2 t2)
  from before_result(2) [OF no_transition(1)] after_result(3) [OF no_transition(3)]
  have "\<forall>p\<in>set (t1 @ t2). callbackType (fst p) \<noteq> callbackLeaveState" by auto
  then have "\<not> deferred (t1 @ t2)"
    unfolding deferred_def by (metis last_in_set)
  with no_transition assms(2) show ?thesis by simp
next
  case (leave_stop e1 t1 err e2 t2)
  from leave_result(4) [OF leave_stop(3)] leave_result(2) [OF leave_stop(3)]
  have t: "t2 \<noteq> []" "callbackType (fst (last t2)) = callbackLeaveState"
    "if canceled (snd (last t2)) then err = CanceledError (Err (snd (last t2)))
     else async (snd (last t2)) \<and> err = AsyncError (Err (snd (last t2)))" by auto
  show ?thesis
  proof (cases "canceled (snd (last t2))")
    case True
    with t leave_stop show ?thesis by (simp add: deferred_def)
  next
    case False
    with t leave_stop show ?thesis by (simp add: deferred_def)
  qed
next
  case (commit e1 t1 e2 t2 e3 t3 e4 t4)
  from before_result(2) [OF commit(1)] leave_result(3) [OF commit(3)]
    enter_result(3) [OF commit(4)] after_result(3) [OF commit(5)]
  have "\<forall>p\<in>set (t1 @ t2 @ t3 @ t4).
          callbackType (fst p) = callbackLeaveState \<longrightarrow> \<not> async (snd p)" by auto
  then have "\<not> deferred (t1 @ t2 @ t3 @ t4)"
    unfolding deferred_def by (metis last_in_set)
  with commit show ?thesis by simp
qed

lemma Event_elim:
  assumes "Event m ord name args = (r, m', t)"
  obtains
    (busy) "transition m \<noteq> None" "r = Some (InTransitionError name)" "m' = m" "t = []"
  | (not_found) "transition m = None" "m' = m" "t = []"
      "transitions m \<lparr>event = name, src = current m\<rparr> = None" "ord \<noteq> []"
      "r = (if event (hd ord) = name then Some (InvalidEventError name (current m))
            else Some (UnknownEventError name))"
  | (found) dst where "transition m = None"
      "transitions m \<lparr>event = name, src = current m\<rparr> = Some dst"
      "Event_from m name args dst = (r, m', t)"
  | (empty_table) "transition m = None"
      "transitions m \<lparr>event = name, src = current m\<rparr> = None" "ord = []"
      "Event_from m name args '''' = (r, m', t)"
proof (cases "transition m = None")
  case False
  with assms have "r = Some (InTransitionError name) \<and> m' = m \<and> t = []"
    by (auto simp: Event_def)
  with False show thesis by (intro busy) simp_all
next
  case True
  note idle = this
  show thesis
  proof (cases "transitions m \<lparr>event = name, src = current m\<rparr>")
    case (Some dst)
    with assms idle have "Event_from m name args dst = (r, m', t)" by (simp add: Event_def)
    with idle Some show thesis by (intro found) simp_all
  next
    case None
    show thesis
    proof (cases ord)
      case Nil
      with assms idle None have "Event_from m name args '''' = (r, m', t)"
        by (simp add: Event_def)
      with idle None Nil show thesis by (intro empty_table) simp_all
    next
      case (Cons k ks)
      with assms idle None have "m' = m" "t = []"
        "r = (if event (hd ord) = name then Some (InvalidEventError name (current m))
            else Some (UnknownEventError name))"
        by (auto simp: Event_def split: if_splits)
      with idle None Cons show thesis by (intro not_found) simp_all
    qed
  qed
qed

lemma Event_slot:
  assumes "Event m ord name args = (r, m', t)"
  shows "(transition m' \<noteq> None) = (transition m \<noteq> None \<or> deferred t)
       \<and> (settled r \<longrightarrow> transition m' = None)
       \<and> (transition m \<noteq> None \<longrightarrow> r = Some (InTransitionError name) \<and> m' = m \<and> t = [])"
  using assms
proof (cases rule: Event_elim)
  case busy
  then show ?thesis by (simp add: deferred_def)
next
  case not_found
  then show ?thesis by (simp add: deferred_def)
next
  case (found dst)
  from Event_from_slot [OF found(3) found(1)] found(1) show ?thesis by simp
next
  case empty_table
  from Event_from_slot [OF empty_table(4) empty_table(1)] empty_table(1) show ?thesis by simp
qed

lemma doTransition_slot: "doTransition m = (r, m', e, t) \<Longrightarrow> transition m' = None"
  by (auto simp: doTransition_def transitionerStruct_transition_def
           split: option.splits prod.splits)

lemma run_slot:
  "run m ops = (mf, log) \<Longrightarrow> (transition mf \<noteq> None) = pendingAfter (transition m \<noteq> None) log"
proof (induction ops arbitrary: m mf log)
  case Nil
  then show ?case by simp
next
  case (Cons x xs)
  obtain r m1 t where s: "step m x = (r, m1, t)" by (cases "step m x") auto
  obtain m2 l where rn: "run m1 xs = (m2, l)" by (cases "run m1 xs") auto
  from Cons.prems s rn have eq: "mf = m2" "log = (x, r, t) # l" by auto
  note ih = Cons.IH [OF rn]
  show ?case
  proof (cases x)
    case (OpEvent ord name args)
    with s have "Event m ord name args = (r, m1, t)" by simp
    from Event_slot [OF this] ih eq OpEvent show ?thesis by simp
  next
    case OpResume
    with s obtain e where "doTransition m = (r, m1, e, t)"
      by (auto split: prod.splits)
    from doTransition_slot [OF this] ih eq OpResume show ?thesis by simp
  next
    case (OpSetState st)
    with s have "transition m1 = transition m" by (auto simp: SetState_def)
    with ih eq OpSetState show ?thesis by simp
  qed
qed

section \<open>The calls of a phase\<close>

lemma callIfPresent_calls:
  "callIfPresent m k e = (ctxAfter e (callInOrder (callbacks m) (view m) e [k]),
                          callInOrder (callbacks m) (view m) e [k])"
  by (simp add: callIfPresent_def ctxAfter_def Let_def split: option.splits)

lemma callInOrder_two:
  "callInOrder cbs v e [k1, k2]
     = callInOrder cbs v e [k1] @ callInOrder cbs v (ctxAfter e (callInOrder cbs v e [k1])) [k2]"
  by (simp add: ctxAfter_def split: option.splits)

lemma enter_calls:
  "enterStateCallbacks m e
     = (ctxAfter e (callInOrder (callbacks m) (view m) e
                      [\<lparr>target = current m, callbackType = callbackEnterState\<rparr>,
                       \<lparr>target = '''', callbackType = callbackEnterState\<rparr>]),
        callInOrder (callbacks m) (view m) e
          [\<lparr>target = current m, callbackType = callbackEnterState\<rparr>,
           \<lparr>target = '''', callbackType = callbackEnterState\<rparr>])"
  by (simp add: enterStateCallbacks_def callIfPresent_def ctxAfter_def Let_def
           split: option.splits)

lemma after_calls:
  "afterEventCallbacks m e
     = (ctxAfter e (expectedAfterLog (callbacks m) (view m) e),
        expectedAfterLog (callbacks m) (view m) e)"
  by (simp add: afterEventCallbacks_def expectedAfterLog_def callIfPresent_def ctxAfter_def
                Let_def split: option.splits)

lemma before_calls:
  assumes "beforeEventCallbacks m e = (None, e', t)"
  shows "t = callInOrder (callbacks m) (view m) e
               [\<lparr>target = current m, callbackType = callbackBeforeEvent\<rparr>,
                \<lparr>target = '''', callbackType = callbackBeforeEvent\<rparr>]"
  using assms
  by (auto simp: beforeEventCallbacks_def beforeEventWildcard_def Let_def
           split: option.splits if_splits)

lemma map_fst_callInOrder:
  "map fst (callInOrder cbs v e ks) = filter (\<lambda>k. cbs k \<noteq> None) ks"
  by (induction ks arbitrary: e) (auto split: option.splits)

declare callInOrder.simps [simp del]

lemma doTransition_expected:
  assumes "transition n = Some (d, c)"
  shows "doTransition n
           = (None, n\<lparr>current := d, transition := None\<rparr>,
              Some (ctxAfter c (expectedCommitLog (callbacks n) d c)),
              expectedCommitLog (callbacks n) d c)"
proof -
  have v: "view (n\<lparr>current := d\<rparr>) = \<lparr>view_current = d, view_pending = True\<rparr>"
    using assms by (simp add: view_def)
  have en: "enterStateCallbacks (n\<lparr>current := d\<rparr>) c
              = (ctxAfter c (expectedEnterLog (callbacks n) d c),
                 expectedEnterLog (callbacks n) d c)"
    using enter_calls [of "n\<lparr>current := d\<rparr>" c] v by (simp add: expectedEnterLog_def)
  have af: "afterEventCallbacks (n\<lparr>current := d\<rparr>) (ctxAfter c (expectedEnterLog (callbacks n) d c))
              = (ctxAfter c (expectedCommitLog (callbacks n) d c),
                 expectedAfterLog (callbacks n) \<lparr>view_current = d, view_pending = True\<rparr>
                   (ctxAfter c (expectedEnterLog (callbacks n) d c)))"
    using after_calls [of "n\<lparr>current := d\<rparr>" "ctxAfter c (expectedEnterLog (callbacks n) d c)"] v
    by (simp add: expectedCommitLog_def ctxAfter_append)
  from doTransition_pending [OF assms en af] show ?thesis
    by (simp add: expectedCommitLog_def)
qed

lemma map_fst_expectedCommitLog:
  "map fst (expectedCommitLog cbs d c)
     = filter (\<lambda>k. cbs k \<noteq> None)
         (commitKeys d (Event_Event (ctxAfter c (expectedEnterLog cbs d c))))"
  by (simp add: commitKeys_def expectedCommitLog_def expectedEnterLog_def
                expectedAfterLog_def map_fst_callInOrder)

lemma commit_each_once:
  assumes "d \<noteq> ''''" and "Event_Event (ctxAfter c (expectedEnterLog cbs d c)) \<noteq> ''''"
  shows "eachOnce cbs (commitKeys d (Event_Event (ctxAfter c (expectedEnterLog cbs d c))))
           (expectedCommitLog cbs d c)"
  unfolding eachOnce_def map_fst_expectedCommitLog
  using assms by (auto simp: commitKeys_def)

section \<open>Evaluating the example machines\<close>

lemmas build_defs = NewMachine_def addEvent_def addSrc_def addCallback_def resolveCallback_def
  HasPrefix_def Trim_def scanner_def scanEvents_def lights_def lightEvents_def lightKeys_def
  lightsW_def lightEventsW_def lightKeysW_def stopper_def

lemmas run_defs = Event_def Event_from_def newEvent_def beforeEventCallbacks_def
  beforeEventWildcard_def leaveStateCallbacks_def leaveStateWildcard_def doTransition_def
  transitionerStruct_transition_def transitionClosure_def enterStateCallbacks_def
  afterEventCallbacks_def callIfPresent_def view_def Cancel_def Async_def
  cancelWith_def deferIt_def cancelAndDefer_def attach_def keep_def tick_def Let_def

section \<open>C1: an event with no entry for the current state\<close>

text \<open>
  What the code does when the key is absent and the table is not empty: the first key
  that the scan visits decides the error, and the machine is unchanged.
\<close>

lemma Event_not_found:
  assumes "transition m = None"
    and "transitions m \<lparr>event = name, src = current m\<rparr> = None"
    and "ord \<noteq> []"
  shows "Event m ord name args
           = (Some (if event (hd ord) = name then InvalidEventError name (current m)
                    else UnknownEventError name), m, [])"
  using assms by (cases ord) (simp_all add: Event_def)

text \<open>
  C1 says that a trigger of an event with no table entry for the current state fails
  with \<open>InvalidEventError\<close> when some entry has the event name and with
  \<open>UnknownEventError\<close> when none has, whatever the order of the table and also for an
  empty table. The code returns in the first iteration of its scan. On the machine of
  the specification's scenario, in state \<open>scanning\<close>, the event \<open>scan\<close> is known (it has
  an entry from \<open>idle\<close>) and has no entry from \<open>scanning\<close>: when the scan meets the entry
  of \<open>finish\<close> first the result is \<open>UnknownEventError\<close>, when it meets the entry of
  \<open>scan\<close> first it is \<open>InvalidEventError\<close>. With an empty table the scan has no
  iteration: the trigger of any event succeeds and moves the machine to the state
  named by the empty string.
\<close>

theorem Event_scan_returns_on_first_entry:
  "set [\<lparr>event = ''finish'', src = ''scanning''\<rparr>, \<lparr>event = ''scan'', src = ''idle''\<rparr>]
     = dom (transitions (scanner ''scanning'' []))
   \<and> transitions (scanner ''scanning'' []) \<lparr>event = ''scan'', src = ''scanning''\<rparr> = None
   \<and> transitions (scanner ''scanning'' []) \<lparr>event = ''scan'', src = ''idle''\<rparr> = Some ''scanning''
   \<and> Event (scanner ''scanning'' [])
        [\<lparr>event = ''finish'', src = ''scanning''\<rparr>, \<lparr>event = ''scan'', src = ''idle''\<rparr>]
        ''scan'' []
      = (Some (UnknownEventError ''scan''), scanner ''scanning'' [], [])
   \<and> Event (scanner ''scanning'' [])
        [\<lparr>event = ''scan'', src = ''idle''\<rparr>, \<lparr>event = ''finish'', src = ''scanning''\<rparr>]
        ''scan'' []
      = (Some (InvalidEventError ''scan'' ''scanning''), scanner ''scanning'' [], [])
   \<and> dom (transitions (NewMachine ''idle'' [] ([] :: (string \<times> nat Callback) list))) = set []
   \<and> Event (NewMachine ''idle'' [] []) [] ''bogus'' ([] :: nat list)
      = (None, (NewMachine ''idle'' [] [])\<lparr>current := ''''\<rparr>, [])"
  by (simp add: build_defs run_defs)

section \<open>C2: resolving callback names\<close>

text \<open>
  C2 says that a callback name is resolved by stripping its prefix, so that
  \<open>before_X\<close> with \<open>X\<close> a known event is registered for exactly \<open>X\<close>, and that the names
  \<open>before_event\<close>, \<open>leave_state\<close>, \<open>enter_state\<close> and \<open>after_event\<close> register wildcard
  callbacks. The code strips with \<^verbatim>\<open>strings.Trim\<close>, which removes every leading and
  trailing character that occurs in the prefix. For the event \<open>open\<close> the name
  \<open>before_open\<close> resolves to the target \<open>pen\<close>, which is no event, and the callback is
  dropped. The four wildcard names resolve to \<open>vent\<close>, \<open>stat\<close>, \<open>sta\<close> and \<open>ven\<close>, never
  to \<open>event\<close> or \<open>state\<close>, and are dropped as well; the registry stays empty.
\<close>

theorem NewMachine_trims_a_cutset:
  "resolveCallback {''open''} {''closed'', ''opened''} ''before_open''
     = \<lparr>target = ''pen'', callbackType = callbackNone\<rparr>
   \<and> callbacks (NewMachine ''closed''
                  [\<lparr>Name = ''open'', Src = [''closed''], Dst = ''opened''\<rparr>]
                  [(''before_open'', keep)]) = Map.empty
   \<and> Trim ''before_event'' ''before_'' = ''vent''
   \<and> Trim ''leave_state'' ''leave_'' = ''stat''
   \<and> Trim ''enter_state'' ''enter_'' = ''sta''
   \<and> Trim ''after_event'' ''after_'' = ''ven''
   \<and> callbacks (NewMachine ''closed''
                  [\<lparr>Name = ''open'', Src = [''closed''], Dst = ''opened''\<rparr>]
                  [(''before_event'', keep), (''leave_state'', keep),
                   (''enter_state'', keep), (''after_event'', keep)]) = Map.empty"
  by (simp add: build_defs)

section \<open>C3: the order of the callbacks of a transition\<close>

text \<open>
  What the code does on a valid trigger to another state in which no callback cancels
  or defers: the machine moves to the destination, the result is the error of the
  context, and the calls are, in this order, the before-event callbacks (the one
  registered under the current state, then the wildcard), the leave-state callbacks
  (current state, wildcard), the enter-state callbacks (destination, wildcard) and the
  after-event callbacks (event of the context, wildcard), each if registered.
\<close>

lemma Event_commit_calls:
  assumes "transition m = None"
    and "transitions m \<lparr>event = name, src = current m\<rparr> = Some dst"
    and "dst \<noteq> current m"
    and "Event m ord name args = (r, m', tr)"
    and "\<forall>p\<in>set tr. \<not> canceled (snd p) \<and> \<not> async (snd p)"
  shows "m' = m\<lparr>current := dst\<rparr>
       \<and> r = Err (ctxAfter (newEvent m name args dst) tr)
       \<and> (\<exists>tb tl te ta. tr = tb @ tl @ te @ ta
             \<and> map fst tb = filter (\<lambda>k. callbacks m k \<noteq> None)
                   [\<lparr>target = current m, callbackType = callbackBeforeEvent\<rparr>,
                    \<lparr>target = '''', callbackType = callbackBeforeEvent\<rparr>]
             \<and> map fst tl = filter (\<lambda>k. callbacks m k \<noteq> None)
                   [\<lparr>target = current m, callbackType = callbackLeaveState\<rparr>,
                    \<lparr>target = '''', callbackType = callbackLeaveState\<rparr>]
             \<and> map fst te = enterKeys m dst
             \<and> map fst ta = afterKeys m (ctxAfter (newEvent m name args dst) (tb @ tl @ te)))"
proof -
  let ?e = "newEvent m name args dst"
  from assms(1,2,4) have ef: "Event_from m name args dst = (r, m', tr)"
    by (simp add: Event_def)
  from ef show ?thesis
  proof (cases rule: Event_from_elim)
    case (before_stop err e1 t1)
    from before_result(4) [OF before_stop(1)]
    have "t1 \<noteq> []" "canceled (snd (last t1))" by auto
    with assms(5) before_stop(4) show ?thesis by (metis last_in_set)
  next
    case (no_transition e1 t1 e2 t2)
    with assms(3) show ?thesis by simp
  next
    case (leave_stop e1 t1 err e2 t2)
    from leave_result(4) [OF leave_stop(3)]
    have "t2 \<noteq> []" "canceled (snd (last t2)) \<or> async (snd (last t2))"
      by (auto split: if_splits)
    moreover from \<open>t2 \<noteq> []\<close> leave_stop(6) have "last t2 \<in> set tr" by simp
    ultimately show ?thesis using assms(5) by blast
  next
    case (commit e1 t1 e2 t2 e3 t3 e4 t4)
    note b = before_result(1) [OF commit(1)]
    note l = leave_result(1) [OF commit(3)]
    note en = enter_result(1) [OF commit(4)]
    note af = after_result(1) [OF commit(5)]
    have kb: "map fst t1 = filter (\<lambda>k. callbacks m k \<noteq> None)
                   [\<lparr>target = current m, callbackType = callbackBeforeEvent\<rparr>,
                    \<lparr>target = '''', callbackType = callbackBeforeEvent\<rparr>]"
      using before_keys [OF commit(1)] .
    have kl: "map fst t2 = filter (\<lambda>k. callbacks m k \<noteq> None)
                   [\<lparr>target = current m, callbackType = callbackLeaveState\<rparr>,
                    \<lparr>target = '''', callbackType = callbackLeaveState\<rparr>]"
      using leave_keys [OF commit(3)] by simp
    have ke: "map fst t3 = enterKeys m dst"
      using enter_result(2) [OF commit(4)] by (simp add: enterKeys_def)
    have e3: "e3 = ctxAfter ?e (t1 @ t2 @ t3)"
      using b l en by (simp add: ctxAfter_append)
    have ka: "map fst t4 = afterKeys m (ctxAfter ?e (t1 @ t2 @ t3))"
      using after_result(2) [OF commit(5)] e3 by (simp add: afterKeys_def)
    have e4: "e4 = ctxAfter ?e tr"
      using af e3 commit(8) by (simp add: ctxAfter_append)
    have m': "m' = m\<lparr>current := dst\<rparr>" using commit(7) assms(1) by simp
    from m' e4 commit(6,8) kb kl ke ka show ?thesis by blast
  qed
qed

text \<open>
  C3 says that a valid trigger runs the callbacks in the order before-event (specific,
  looked up by the name of the event, then wildcard), leave-state, enter-state,
  after-event, and moves to the destination. The code looks the specific before-event
  callback up under the current state, not under the event. The machine of the
  scenario, built with a callback \<open>before_scan\<close> that cancels, has that callback in its
  registry under the event \<open>scan\<close>; the trigger of \<open>scan\<close> from \<open>idle\<close> calls no callback
  at all, is not cancelled, and moves to \<open>scanning\<close>.
\<close>

theorem Event_skips_before_event_callback:
  "callbacks (scanner ''idle'' [(''before_scan'', cancelWith None)])
       \<lparr>target = ''scan'', callbackType = callbackBeforeEvent\<rparr> = Some (cancelWith None)
   \<and> transitions (scanner ''idle'' [(''before_scan'', cancelWith None)])
       \<lparr>event = ''scan'', src = ''idle''\<rparr> = Some ''scanning''
   \<and> Event (scanner ''idle'' [(''before_scan'', cancelWith None)])
       [\<lparr>event = ''scan'', src = ''idle''\<rparr>, \<lparr>event = ''finish'', src = ''scanning''\<rparr>]
       ''scan'' []
     = (None, (scanner ''idle'' [(''before_scan'', cancelWith None)])\<lparr>current := ''scanning''\<rparr>,
        [])"
  by (simp add: build_defs run_defs)

section \<open>C4: a self-loop\<close>

text \<open>
  C4: when the looked-up destination equals the current state and the before-event
  callbacks did not cancel, the trigger calls no leave-state and no enter-state
  callback, runs the after-event callbacks (the specific one of the context's event,
  then the wildcard, each applied to the context that the previous call left), leaves
  the machine as it was, and returns \<open>NoTransitionError\<close> wrapping the error of the
  context as the last callback left it, which is nil when no callback was called. The
  log of the trigger is exactly the before-event calls followed by the after-event
  calls.
\<close>

theorem no_transition_on_self_loop:
  assumes "transition m = None"
    and "transitions m \<lparr>event = name, src = current m\<rparr> = Some (current m)"
    and "Event m ord name args = (r, m', tr)"
    and "\<forall>p\<in>set tr. callbackType (fst p) = callbackBeforeEvent \<longrightarrow> \<not> canceled (snd p)"
  shows "(let e0 = newEvent m name args (current m);
              tb = callInOrder (callbacks m) (view m) e0
                     [\<lparr>target = current m, callbackType = callbackBeforeEvent\<rparr>,
                      \<lparr>target = '''', callbackType = callbackBeforeEvent\<rparr>];
              ta = expectedAfterLog (callbacks m) (view m) (ctxAfter e0 tb)
          in m' = m
           \<and> tr = tb @ ta
           \<and> r = Some (NoTransitionError (Err (ctxAfter e0 tr)))
           \<and> (tr = [] \<longrightarrow> r = Some (NoTransitionError None))
           \<and> (\<forall>p\<in>set tr. callbackType (fst p) \<noteq> callbackLeaveState
                          \<and> callbackType (fst p) \<noteq> callbackEnterState))"
proof -
  let ?e = "newEvent m name args (current m)"
  let ?tb = "callInOrder (callbacks m) (view m) ?e
                     [\<lparr>target = current m, callbackType = callbackBeforeEvent\<rparr>,
                      \<lparr>target = '''', callbackType = callbackBeforeEvent\<rparr>]"
  let ?ta = "expectedAfterLog (callbacks m) (view m) (ctxAfter ?e ?tb)"
  from assms(1,2,3) have ef: "Event_from m name args (current m) = (r, m', tr)"
    by (simp add: Event_def)
  from ef have main: "m' = m \<and> tr = ?tb @ ?ta
           \<and> r = Some (NoTransitionError (Err (ctxAfter ?e tr)))
           \<and> (tr = [] \<longrightarrow> r = Some (NoTransitionError None))
           \<and> (\<forall>p\<in>set tr. callbackType (fst p) \<noteq> callbackLeaveState
                          \<and> callbackType (fst p) \<noteq> callbackEnterState)"
  proof (cases rule: Event_from_elim)
    case (before_stop err e1 t1)
    from before_result(4) [OF before_stop(1)] before_result(2) [OF before_stop(1)]
    have "t1 \<noteq> []" "canceled (snd (last t1))" "callbackType (fst (last t1)) = callbackBeforeEvent"
      by auto
    with assms(4) before_stop(4) show ?thesis by (metis last_in_set)
  next
    case (no_transition e1 t1 e2 t2)
    note b = before_result [OF no_transition(1)]
    note a = after_result [OF no_transition(3)]
    have t1: "t1 = ?tb" using before_calls [OF no_transition(1)] .
    have e1: "e1 = ctxAfter ?e ?tb" using b(1) t1 by simp
    from no_transition(3) have "t2 = expectedAfterLog (callbacks m) (view m) e1"
      by (simp add: after_calls)
    with e1 have t2: "t2 = ?ta" by simp
    have e2': "e2 = ctxAfter e1 t2" using a(1) .
    have e2: "e2 = ctxAfter ?e tr"
      using e2' b(1) no_transition(6) by (simp add: ctxAfter_append)
    have types: "\<forall>p\<in>set tr. callbackType (fst p) \<noteq> callbackLeaveState
                      \<and> callbackType (fst p) \<noteq> callbackEnterState"
      using a(3) b(2) no_transition(6) by auto
    have empty: "tr = [] \<longrightarrow> r = Some (NoTransitionError None)"
      using e2 no_transition(4) by (simp add: ctxAfter_def newEvent_def)
    from no_transition(4,5,6) e2 t1 t2 types empty show ?thesis by simp
  next
    case (leave_stop e1 t1 err e2 t2)
    then show ?thesis by simp
  next
    case (commit e1 t1 e2 t2 e3 t3 e4 t4)
    then show ?thesis by simp
  qed
  then show ?thesis unfolding Let_def .
qed

theorem no_transition_on_self_loop_witness:
  "transition (lightsW [(''before_'', tick), (''hold'', tick),
                        (''after_'', attach (OtherError ''held''))]) = None
   \<and> transitions (lightsW [(''before_'', tick), (''hold'', tick),
                           (''after_'', attach (OtherError ''held''))])
        \<lparr>event = ''hold'', src = ''green''\<rparr> = Some ''green''
   \<and> Event (lightsW [(''before_'', tick), (''hold'', tick),
                     (''after_'', attach (OtherError ''held''))]) lightKeysW ''hold'' [7]
       = (Some (NoTransitionError (Some (OtherError ''held''))),
          lightsW [(''before_'', tick), (''hold'', tick),
                   (''after_'', attach (OtherError ''held''))],
          [(\<lparr>target = '''', callbackType = callbackBeforeEvent\<rparr>,
            \<lparr>Event_Event = ''hold'', Event_Src = ''green'', Event_Dst = ''green'',
             Err = None, Args = [0, 7], canceled = False, async = False\<rparr>),
           (\<lparr>target = ''hold'', callbackType = callbackAfterEvent\<rparr>,
            \<lparr>Event_Event = ''hold'', Event_Src = ''green'', Event_Dst = ''green'',
             Err = None, Args = [0, 0, 7], canceled = False, async = False\<rparr>),
           (\<lparr>target = '''', callbackType = callbackAfterEvent\<rparr>,
            \<lparr>Event_Event = ''hold'', Event_Src = ''green'', Event_Dst = ''green'',
             Err = Some (OtherError ''held''), Args = [0, 0, 7], canceled = False,
             async = False\<rparr>)])"
proof -
  let ?m = "lightsW [(''before_'', tick), (''hold'', tick),
                     (''after_'', attach (OtherError ''held''))]"
  let ?tr = "[(\<lparr>target = '''', callbackType = callbackBeforeEvent\<rparr>,
            \<lparr>Event_Event = ''hold'', Event_Src = ''green'', Event_Dst = ''green'',
             Err = None, Args = [0, 7::nat], canceled = False, async = False\<rparr>),
           (\<lparr>target = ''hold'', callbackType = callbackAfterEvent\<rparr>,
            \<lparr>Event_Event = ''hold'', Event_Src = ''green'', Event_Dst = ''green'',
             Err = None, Args = [0, 0, 7], canceled = False, async = False\<rparr>),
           (\<lparr>target = '''', callbackType = callbackAfterEvent\<rparr>,
            \<lparr>Event_Event = ''hold'', Event_Src = ''green'', Event_Dst = ''green'',
             Err = Some (OtherError ''held''), Args = [0, 0, 7], canceled = False,
             async = False\<rparr>)]"
  have cur: "current ?m = ''green''" by (simp add: build_defs)
  have idle: "transition ?m = None" by (simp add: build_defs)
  have loop: "transitions ?m \<lparr>event = ''hold'', src = current ?m\<rparr> = Some (current ?m)"
    by (simp add: build_defs)
  have ev: "Event ?m lightKeysW ''hold'' [7]
              = (Some (NoTransitionError (Some (OtherError ''held''))), ?m, ?tr)"
    by (simp add: build_defs run_defs)
  have nc: "\<forall>p\<in>set ?tr. callbackType (fst p) = callbackBeforeEvent \<longrightarrow> \<not> canceled (snd p)"
    by simp
  from no_transition_on_self_loop [OF idle loop ev nc] cur idle loop ev show ?thesis by simp
qed

section \<open>C5: the deferral protocol\<close>

text \<open>
  C5 says that a resume with a pending transition runs the enter-state and the
  after-event callbacks exactly once. The wildcard callbacks are the ones registered
  under the empty target, and the specific enter-state callback is looked up under the
  destination: when the destination is the state named by the empty string, both
  lookups find the same callback, and one resume calls it twice.
\<close>

theorem resume_calls_callback_twice:
  "Event (stopper [(''leave_busy'', deferIt), ('''', tick)])
         [\<lparr>event = ''stop'', src = ''busy''\<rparr>] ''stop'' []
     = (Some (AsyncError None),
        (stopper [(''leave_busy'', deferIt), ('''', tick)])
          \<lparr>transition := Some ('''',
             \<lparr>Event_Event = ''stop'', Event_Src = ''busy'', Event_Dst = '''', Err = None,
              Args = [], canceled = False, async = True\<rparr>)\<rparr>,
        [(\<lparr>target = ''busy'', callbackType = callbackLeaveState\<rparr>,
          \<lparr>Event_Event = ''stop'', Event_Src = ''busy'', Event_Dst = '''', Err = None,
           Args = [], canceled = False, async = True\<rparr>)])
   \<and> doTransition
        ((stopper [(''leave_busy'', deferIt), ('''', tick)])
          \<lparr>transition := Some ('''',
             \<lparr>Event_Event = ''stop'', Event_Src = ''busy'', Event_Dst = '''', Err = None,
              Args = [], canceled = False, async = True\<rparr>)\<rparr>)
     = (None,
        (stopper [(''leave_busy'', deferIt), ('''', tick)])\<lparr>current := ''''\<rparr>,
        Some \<lparr>Event_Event = ''stop'', Event_Src = ''busy'', Event_Dst = '''', Err = None,
              Args = [0, 0], canceled = False, async = True\<rparr>,
        [(\<lparr>target = '''', callbackType = callbackEnterState\<rparr>,
          \<lparr>Event_Event = ''stop'', Event_Src = ''busy'', Event_Dst = '''', Err = None,
           Args = [0], canceled = False, async = True\<rparr>),
         (\<lparr>target = '''', callbackType = callbackEnterState\<rparr>,
          \<lparr>Event_Event = ''stop'', Event_Src = ''busy'', Event_Dst = '''', Err = None,
           Args = [0, 0], canceled = False, async = True\<rparr>)])
   \<and> count_list
        (map fst (snd (snd (snd (doTransition
          ((stopper [(''leave_busy'', deferIt), ('''', tick)])
            \<lparr>transition := Some ('''',
               \<lparr>Event_Event = ''stop'', Event_Src = ''busy'', Event_Dst = '''', Err = None,
                Args = [], canceled = False, async = True\<rparr>)\<rparr>))))))
        \<lparr>target = '''', callbackType = callbackEnterState\<rparr> = 2"
  by (simp add: build_defs run_defs)

text \<open>
  C5 as amended: when a trigger of a valid event was deferred by a leave-state
  callback, it returned \<open>AsyncError\<close> and left the machine unchanged except for the
  occupied slot; every further trigger on that machine fails with \<open>InTransitionError\<close>
  and returns the same machine, so this holds until a resume. The resume through the
  executor then returns no error, sets the current state to the deferred destination,
  applies the enter-state callbacks (the one of the destination, then the wildcard) and
  the after-event callbacks (the one of the context's event, then the wildcard), each
  to the context that the previous one left, and empties the slot; a second resume
  finds the slot empty and fails with \<open>NotInTransitionError\<close>, calling nothing. On any
  machine, a resume with an empty slot fails with \<open>NotInTransitionError\<close> and changes
  nothing, and a resume with an occupied slot runs the stored transition in this way
  and empties the slot. Unless the destination or the event of the context is the
  empty string, such a resume calls each registered callback among the four exactly
  once.
\<close>

theorem async_deferral_protocol:
  assumes "transitions m \<lparr>event = name, src = current m\<rparr> = Some dst"
    and "Event m ord name args = (r, m', tr)"
    and "deferred tr"
  shows "r = Some (AsyncError (Err (snd (last tr))))
       \<and> m' = m\<lparr>transition := Some (dst, snd (last tr))\<rparr>
       \<and> (\<forall>ord' name' args'.
             Event m' ord' name' args' = (Some (InTransitionError name'), m', []))
       \<and> doTransition m'
           = (None, m\<lparr>current := dst\<rparr>,
              Some (ctxAfter (snd (last tr)) (expectedCommitLog (callbacks m) dst (snd (last tr)))),
              expectedCommitLog (callbacks m) dst (snd (last tr)))
       \<and> transition (m\<lparr>current := dst\<rparr>) = None
       \<and> doTransition (m\<lparr>current := dst\<rparr>)
           = (Some NotInTransitionError, m\<lparr>current := dst\<rparr>, None, [])
       \<and> (\<forall>n :: 'a Machine. transition n = None
             \<longrightarrow> doTransition n = (Some NotInTransitionError, n, None, []))
       \<and> (\<forall>(n :: 'a Machine) d c. transition n = Some (d, c)
             \<longrightarrow> doTransition n
                   = (None, n\<lparr>current := d, transition := None\<rparr>,
                      Some (ctxAfter c (expectedCommitLog (callbacks n) d c)),
                      expectedCommitLog (callbacks n) d c))
       \<and> (\<forall>(cbs :: cKey \<rightharpoonup> 'a Callback) d c.
             d \<noteq> '''' \<and> Event_Event (ctxAfter c (expectedEnterLog cbs d c)) \<noteq> ''''
             \<longrightarrow> eachOnce cbs
                   (commitKeys d (Event_Event (ctxAfter c (expectedEnterLog cbs d c))))
                   (expectedCommitLog cbs d c))"
proof -
  let ?p = "last tr"
  from assms(3) have ne: "tr \<noteq> []" and p: "?p \<in> set tr"
    "callbackType (fst ?p) = callbackLeaveState" "async (snd ?p)" "\<not> canceled (snd ?p)"
    by (auto simp: deferred_def)
  note idle = Event_with_calls(1) [OF assms(2) ne]
  from Event_with_calls(2) [OF assms(2) ne] assms(1)
  have ef: "Event_from m name args dst = (r, m', tr)" by simp
  from Event_from_async [OF ef p]
  have r: "r = Some (AsyncError (Err (snd ?p)))"
    and m': "m' = m\<lparr>transition := Some (dst, snd ?p)\<rparr>" by auto
  have rej: "\<forall>ord' name' args'.
             Event m' ord' name' args' = (Some (InTransitionError name'), m', [])"
    using m' by (simp add: Event_def)
  have "transition m' = Some (dst, snd ?p)" using m' by simp
  from doTransition_expected [OF this] m' idle
  have res: "doTransition m'
           = (None, m\<lparr>current := dst\<rparr>,
              Some (ctxAfter (snd ?p) (expectedCommitLog (callbacks m) dst (snd ?p))),
              expectedCommitLog (callbacks m) dst (snd ?p))"
    by simp
  have again: "transition (m\<lparr>current := dst\<rparr>) = None
       \<and> doTransition (m\<lparr>current := dst\<rparr>)
           = (Some NotInTransitionError, m\<lparr>current := dst\<rparr>, None, [])"
    using idle by (simp add: doTransition_idle)
  have gen1: "\<forall>n :: 'a Machine. transition n = None
             \<longrightarrow> doTransition n = (Some NotInTransitionError, n, None, [])"
    by (simp add: doTransition_idle)
  have gen2: "\<forall>(n :: 'a Machine) d c. transition n = Some (d, c)
             \<longrightarrow> doTransition n
                   = (None, n\<lparr>current := d, transition := None\<rparr>,
                      Some (ctxAfter c (expectedCommitLog (callbacks n) d c)),
                      expectedCommitLog (callbacks n) d c)"
    using doTransition_expected by blast
  have once: "\<forall>(cbs :: cKey \<rightharpoonup> 'a Callback) d c.
             d \<noteq> '''' \<and> Event_Event (ctxAfter c (expectedEnterLog cbs d c)) \<noteq> ''''
             \<longrightarrow> eachOnce cbs
                   (commitKeys d (Event_Event (ctxAfter c (expectedEnterLog cbs d c))))
                   (expectedCommitLog cbs d c)"
    using commit_each_once by blast
  from r m' rej res again gen1 gen2 once show ?thesis by blast
qed

theorem async_deferral_protocol_witness:
  "Event (lightsW [(''leave_green'', deferIt), (''enter_yellow'', tick), (''enter_'', tick),
                   (''warn'', attach (OtherError ''late'')), (''after_'', tick)])
         lightKeysW ''warn'' []
     = (Some (AsyncError None),
        (lightsW [(''leave_green'', deferIt), (''enter_yellow'', tick), (''enter_'', tick),
                  (''warn'', attach (OtherError ''late'')), (''after_'', tick)])
          \<lparr>transition := Some (''yellow'',
             \<lparr>Event_Event = ''warn'', Event_Src = ''green'', Event_Dst = ''yellow'',
              Err = None, Args = [], canceled = False, async = True\<rparr>)\<rparr>,
        [(\<lparr>target = ''green'', callbackType = callbackLeaveState\<rparr>,
          \<lparr>Event_Event = ''warn'', Event_Src = ''green'', Event_Dst = ''yellow'',
           Err = None, Args = [], canceled = False, async = True\<rparr>)])
   \<and> Event ((lightsW [(''leave_green'', deferIt), (''enter_yellow'', tick), (''enter_'', tick),
                   (''warn'', attach (OtherError ''late'')), (''after_'', tick)])
              \<lparr>transition := Some (''yellow'',
                 \<lparr>Event_Event = ''warn'', Event_Src = ''green'', Event_Dst = ''yellow'',
                  Err = None, Args = [], canceled = False, async = True\<rparr>)\<rparr>)
           lightKeysW ''panic'' []
      = (Some (InTransitionError ''panic''),
         (lightsW [(''leave_green'', deferIt), (''enter_yellow'', tick), (''enter_'', tick),
                   (''warn'', attach (OtherError ''late'')), (''after_'', tick)])
              \<lparr>transition := Some (''yellow'',
                 \<lparr>Event_Event = ''warn'', Event_Src = ''green'', Event_Dst = ''yellow'',
                  Err = None, Args = [], canceled = False, async = True\<rparr>)\<rparr>,
         [])
   \<and> doTransition
        ((lightsW [(''leave_green'', deferIt), (''enter_yellow'', tick), (''enter_'', tick),
                   (''warn'', attach (OtherError ''late'')), (''after_'', tick)])
          \<lparr>transition := Some (''yellow'',
             \<lparr>Event_Event = ''warn'', Event_Src = ''green'', Event_Dst = ''yellow'',
              Err = None, Args = [], canceled = False, async = True\<rparr>)\<rparr>)
     = (None,
        (lightsW [(''leave_green'', deferIt), (''enter_yellow'', tick), (''enter_'', tick),
                  (''warn'', attach (OtherError ''late'')), (''after_'', tick)])
          \<lparr>current := ''yellow''\<rparr>,
        Some \<lparr>Event_Event = ''warn'', Event_Src = ''green'', Event_Dst = ''yellow'',
              Err = Some (OtherError ''late''), Args = [0, 0, 0], canceled = False,
              async = True\<rparr>,
        [(\<lparr>target = ''yellow'', callbackType = callbackEnterState\<rparr>,
          \<lparr>Event_Event = ''warn'', Event_Src = ''green'', Event_Dst = ''yellow'',
           Err = None, Args = [0], canceled = False, async = True\<rparr>),
         (\<lparr>target = '''', callbackType = callbackEnterState\<rparr>,
          \<lparr>Event_Event = ''warn'', Event_Src = ''green'', Event_Dst = ''yellow'',
           Err = None, Args = [0, 0], canceled = False, async = True\<rparr>),
         (\<lparr>target = ''warn'', callbackType = callbackAfterEvent\<rparr>,
          \<lparr>Event_Event = ''warn'', Event_Src = ''green'', Event_Dst = ''yellow'',
           Err = Some (OtherError ''late''), Args = [0, 0], canceled = False, async = True\<rparr>),
         (\<lparr>target = '''', callbackType = callbackAfterEvent\<rparr>,
          \<lparr>Event_Event = ''warn'', Event_Src = ''green'', Event_Dst = ''yellow'',
           Err = Some (OtherError ''late''), Args = [0, 0, 0], canceled = False,
           async = True\<rparr>)])"
proof -
  let ?m = "lightsW [(''leave_green'', deferIt), (''enter_yellow'', tick), (''enter_'', tick),
                     (''warn'', attach (OtherError ''late'')), (''after_'', tick)]"
  let ?c = "\<lparr>Event_Event = ''warn'', Event_Src = ''green'', Event_Dst = ''yellow'',
             Err = None, Args = ([] :: nat list), canceled = False, async = True\<rparr>"
  let ?tr = "[(\<lparr>target = ''green'', callbackType = callbackLeaveState\<rparr>, ?c)]"
  have tab: "transitions ?m \<lparr>event = ''warn'', src = current ?m\<rparr> = Some ''yellow''"
    by (simp add: build_defs)
  have ev: "Event ?m lightKeysW ''warn'' []
              = (Some (AsyncError None), ?m\<lparr>transition := Some (''yellow'', ?c)\<rparr>, ?tr)"
    by (simp add: build_defs run_defs)
  have df: "deferred ?tr" by (simp add: deferred_def)
  have cbs: "callbacks ?m
       = [\<lparr>target = ''green'', callbackType = callbackLeaveState\<rparr> \<mapsto> deferIt,
          \<lparr>target = ''yellow'', callbackType = callbackEnterState\<rparr> \<mapsto> tick,
          \<lparr>target = '''', callbackType = callbackEnterState\<rparr> \<mapsto> tick,
          \<lparr>target = ''warn'', callbackType = callbackAfterEvent\<rparr> \<mapsto> attach (OtherError ''late''),
          \<lparr>target = '''', callbackType = callbackAfterEvent\<rparr> \<mapsto> tick]"
    by (simp add: build_defs)
  note P = async_deferral_protocol [OF tab ev df]
  from P have rej: "Event (?m\<lparr>transition := Some (''yellow'', ?c)\<rparr>) lightKeysW ''panic'' []
               = (Some (InTransitionError ''panic''), ?m\<lparr>transition := Some (''yellow'', ?c)\<rparr>, [])"
    by blast
  from P have res0: "doTransition (?m\<lparr>transition := Some (''yellow'', ?c)\<rparr>)
           = (None, ?m\<lparr>current := ''yellow''\<rparr>,
              Some (ctxAfter (snd (last ?tr))
                      (expectedCommitLog (callbacks ?m) ''yellow'' (snd (last ?tr)))),
              expectedCommitLog (callbacks ?m) ''yellow'' (snd (last ?tr)))"
    by blast
  have lst: "snd (last ?tr) = ?c" by simp
  from res0 have res: "doTransition (?m\<lparr>transition := Some (''yellow'', ?c)\<rparr>)
           = (None, ?m\<lparr>current := ''yellow''\<rparr>,
              Some (ctxAfter ?c (expectedCommitLog (callbacks ?m) ''yellow'' ?c)),
              expectedCommitLog (callbacks ?m) ''yellow'' ?c)"
    unfolding lst .
  have log: "expectedCommitLog (callbacks ?m) ''yellow'' ?c
      = [(\<lparr>target = ''yellow'', callbackType = callbackEnterState\<rparr>, ?c\<lparr>Args := [0]\<rparr>),
         (\<lparr>target = '''', callbackType = callbackEnterState\<rparr>, ?c\<lparr>Args := [0, 0]\<rparr>),
         (\<lparr>target = ''warn'', callbackType = callbackAfterEvent\<rparr>,
          ?c\<lparr>Args := [0, 0], Err := Some (OtherError ''late'')\<rparr>),
         (\<lparr>target = '''', callbackType = callbackAfterEvent\<rparr>,
          ?c\<lparr>Args := [0, 0, 0], Err := Some (OtherError ''late'')\<rparr>)]"
    unfolding cbs
    by (simp add: expectedCommitLog_def expectedEnterLog_def expectedAfterLog_def ctxAfter_def
                  callInOrder.simps tick_def attach_def)
  from ev rej res log show ?thesis by (simp add: ctxAfter_def)
qed

section \<open>C6: cancelling and deferring\<close>

text \<open>
  C6: when a before-event or leave-state callback called during a trigger leaves the
  cancel flag set, the trigger returns \<open>CanceledError\<close> wrapping the error of the
  context as that callback left it, the current state is unchanged and the slot is
  empty on return. When a leave-state callback leaves the async flag set and the
  cancel flag clear, the trigger returns \<open>AsyncError\<close>, the current state is unchanged
  and the slot holds the transition to the looked-up destination.
\<close>

theorem Event_cancel_and_defer:
  assumes "Event m ord name args = (r, m', tr)" and "p \<in> set tr"
  shows "((callbackType (fst p) = callbackBeforeEvent \<or> callbackType (fst p) = callbackLeaveState)
            \<and> canceled (snd p)
          \<longrightarrow> r = Some (CanceledError (Err (snd p))) \<and> current m' = current m
              \<and> transition m' = None)
       \<and> (callbackType (fst p) = callbackLeaveState \<and> async (snd p) \<and> \<not> canceled (snd p)
          \<longrightarrow> r = Some (AsyncError (Err (snd p))) \<and> current m' = current m
              \<and> transition m' =
                  Some (case transitions m \<lparr>event = name, src = current m\<rparr> of
                          Some d \<Rightarrow> d | None \<Rightarrow> '''', snd p))"
proof -
  from assms(2) have ne: "tr \<noteq> []" by auto
  note idle = Event_with_calls(1) [OF assms(1) ne]
  note ef = Event_with_calls(2) [OF assms(1) ne]
  show ?thesis
    using Event_from_cancel [OF ef idle assms(2)] Event_from_async [OF ef assms(2)] idle
    by auto
qed

theorem Event_cancel_and_defer_witness:
  "Event (lights [(''leave_green'', cancelWith (Some (OtherError ''stay'')))]) lightKeys ''warn'' []
     = (Some (CanceledError (Some (OtherError ''stay''))),
        lights [(''leave_green'', cancelWith (Some (OtherError ''stay'')))],
        [(\<lparr>target = ''green'', callbackType = callbackLeaveState\<rparr>,
          \<lparr>Event_Event = ''warn'', Event_Src = ''green'', Event_Dst = ''yellow'',
           Err = Some (OtherError ''stay''), Args = [], canceled = True, async = False\<rparr>)])
   \<and> transition (lights [(''leave_green'', cancelWith (Some (OtherError ''stay'')))]) = None
   \<and> fst (Event (lights [(''leave_green'', deferIt)]) lightKeys ''warn'' [])
       = Some (AsyncError None)
   \<and> current (fst (snd (Event (lights [(''leave_green'', deferIt)]) lightKeys ''warn'' [])))
       = ''green''
   \<and> transition (fst (snd (Event (lights [(''leave_green'', deferIt)]) lightKeys ''warn'' [])))
       = Some (''yellow'',
               \<lparr>Event_Event = ''warn'', Event_Src = ''green'', Event_Dst = ''yellow'',
                Err = None, Args = [], canceled = False, async = True\<rparr>)
   \<and> Event (lightsW [(''before_'', cancelWith (Some (OtherError ''no'')))]) lightKeysW ''warn'' []
     = (Some (CanceledError (Some (OtherError ''no''))),
        lightsW [(''before_'', cancelWith (Some (OtherError ''no'')))],
        [(\<lparr>target = '''', callbackType = callbackBeforeEvent\<rparr>,
          \<lparr>Event_Event = ''warn'', Event_Src = ''green'', Event_Dst = ''yellow'',
           Err = Some (OtherError ''no''), Args = [], canceled = True, async = False\<rparr>)])
   \<and> transition (lightsW [(''before_'', cancelWith (Some (OtherError ''no'')))]) = None"
proof -
  let ?mc = "lights [(''leave_green'', cancelWith (Some (OtherError ''stay'')))]"
  let ?ma = "lights [(''leave_green'', deferIt)]"
  let ?mb = "lightsW [(''before_'', cancelWith (Some (OtherError ''no'')))]"
  let ?k = "\<lparr>target = ''green'', callbackType = callbackLeaveState\<rparr>"
  let ?kb = "\<lparr>target = '''', callbackType = callbackBeforeEvent\<rparr>"
  let ?cc = "\<lparr>Event_Event = ''warn'', Event_Src = ''green'', Event_Dst = ''yellow'',
           Err = Some (OtherError ''stay''), Args = ([] :: nat list), canceled = True,
           async = False\<rparr>"
  let ?ca = "\<lparr>Event_Event = ''warn'', Event_Src = ''green'', Event_Dst = ''yellow'',
           Err = None, Args = ([] :: nat list), canceled = False, async = True\<rparr>"
  let ?cb = "\<lparr>Event_Event = ''warn'', Event_Src = ''green'', Event_Dst = ''yellow'',
           Err = Some (OtherError ''no''), Args = ([] :: nat list), canceled = True,
           async = False\<rparr>"
  have evc: "Event ?mc lightKeys ''warn'' []
               = (Some (CanceledError (Some (OtherError ''stay''))), ?mc, [(?k, ?cc)])"
    by (simp add: build_defs run_defs)
  have eva: "Event ?ma lightKeys ''warn'' []
               = (Some (AsyncError None), ?ma\<lparr>transition := Some (''yellow'', ?ca)\<rparr>,
                  [(?k, ?ca)])"
    by (simp add: build_defs run_defs)
  have evb: "Event ?mb lightKeysW ''warn'' []
               = (Some (CanceledError (Some (OtherError ''no''))), ?mb, [(?kb, ?cb)])"
    by (simp add: build_defs run_defs)
  have inc: "(?k, ?cc) \<in> set [(?k, ?cc)]" and ina: "(?k, ?ca) \<in> set [(?k, ?ca)]"
    and inb: "(?kb, ?cb) \<in> set [(?kb, ?cb)]"
    by simp_all
  from Event_cancel_and_defer [OF evc inc] Event_cancel_and_defer [OF eva ina]
    Event_cancel_and_defer [OF evb inb] evc eva evb
  show ?thesis by (simp add: build_defs)
qed

section \<open>C7: the queries\<close>

text \<open>
  C7: \<open>Can\<close> holds exactly when the key of the event and the current state is in the
  table and the slot is empty, \<open>Cannot\<close> is its negation, and \<open>AvailableTransitions\<close>
  returns exactly the event names that have a key with the current state, each once,
  whatever the order in which the table is visited. The three queries are functions of
  the machine that return a value only: they have no machine to return.
\<close>

theorem queries:
  assumes "set ord = dom (transitions m)" and "distinct ord"
  shows "(Can m name \<longleftrightarrow>
            \<lparr>event = name, src = current m\<rparr> \<in> dom (transitions m) \<and> transition m = None)
       \<and> (Cannot m name \<longleftrightarrow> \<not> Can m name)
       \<and> set (AvailableTransitions m ord)
           = {n. \<lparr>event = n, src = current m\<rparr> \<in> dom (transitions m)}
       \<and> distinct (AvailableTransitions m ord)"
proof -
  have a: "set (AvailableTransitions m ord)
           = {n. \<lparr>event = n, src = current m\<rparr> \<in> dom (transitions m)}"
  proof (intro set_eqI iffI)
    fix n assume "n \<in> set (AvailableTransitions m ord)"
    then obtain k where k: "k \<in> set ord" "src k = current m" "event k = n"
      by (auto simp: AvailableTransitions_def)
    then have "k = \<lparr>event = n, src = current m\<rparr>" by simp
    with k(1) assms(1) show "n \<in> {n. \<lparr>event = n, src = current m\<rparr> \<in> dom (transitions m)}"
      by simp
  next
    fix n assume "n \<in> {n. \<lparr>event = n, src = current m\<rparr> \<in> dom (transitions m)}"
    with assms(1) have "\<lparr>event = n, src = current m\<rparr> \<in> set ord" by simp
    then have "\<lparr>event = n, src = current m\<rparr> \<in> set (filter (\<lambda>key. src key = current m) ord)"
      by simp
    then have "event \<lparr>event = n, src = current m\<rparr> \<in> event ` set (filter (\<lambda>key. src key = current m) ord)"
      by (rule imageI)
    then show "n \<in> set (AvailableTransitions m ord)"
      by (simp add: AvailableTransitions_def)
  qed
  have "inj_on event (set (filter (\<lambda>key. src key = current m) ord))"
    by (rule inj_onI) (auto intro: eKey.equality)
  with assms(2) have d: "distinct (AvailableTransitions m ord)"
    by (simp add: AvailableTransitions_def distinct_map)
  from a d show ?thesis by (auto simp: Can_def Cannot_def)
qed

theorem queries_witness:
  "set lightKeys = dom (transitions (lights [])) \<and> distinct lightKeys
   \<and> Can (lights []) ''warn'' \<and> \<not> Can (lights []) ''panic''
   \<and> Cannot (lights []) ''panic''
   \<and> set (AvailableTransitions (lights []) lightKeys) = {''warn'', ''hold''}"
proof -
  have s: "set lightKeys = dom (transitions (lights []))"
    by (auto simp: build_defs)
  have d: "distinct lightKeys"
    by (simp add: build_defs)
  have "{n. \<lparr>event = n, src = current (lights [])\<rparr> \<in> dom (transitions (lights []))}
          = {''warn'', ''hold''}"
    by (auto simp: build_defs)
  with queries [OF s d, of "''warn''"] queries [OF s d, of "''panic''"] s d
  show ?thesis by (simp add: build_defs)
qed

section \<open>C8: when the slot is occupied\<close>

text \<open>
  C8 says that in every reachable state the slot is occupied exactly when the most
  recent trigger returned \<open>AsyncError\<close> and no resume followed. A trigger made while the
  slot is occupied returns \<open>InTransitionError\<close> and leaves the slot occupied: after a
  deferred \<open>warn\<close> and a rejected \<open>panic\<close> the slot is occupied although the most recent
  trigger did not return \<open>AsyncError\<close>. In the other direction, a trigger that completes
  returns the error of the context: when a callback has attached an \<open>AsyncError\<close> value
  there, the trigger returns it and the slot is empty.
\<close>

theorem pending_after_rejected_trigger:
  "transition (fst (run (lights [(''leave_green'', deferIt)])
                    [OpEvent lightKeys ''warn'' [], OpEvent lightKeys ''panic'' []])) \<noteq> None
   \<and> \<not> pendingClaimed False
          (snd (run (lights [(''leave_green'', deferIt)])
                    [OpEvent lightKeys ''warn'' [], OpEvent lightKeys ''panic'' []]))
   \<and> map (\<lambda>x. fst (snd x))
          (snd (run (lights [(''leave_green'', deferIt)])
                    [OpEvent lightKeys ''warn'' [], OpEvent lightKeys ''panic'' []]))
       = [Some (AsyncError None), Some (InTransitionError ''panic'')]
   \<and> transition (fst (run (lights [(''leave_green'', attach (AsyncError None))])
                    [OpEvent lightKeys ''warn'' []])) = None
   \<and> pendingClaimed False
          (snd (run (lights [(''leave_green'', attach (AsyncError None))])
                    [OpEvent lightKeys ''warn'' []]))"
  by (simp add: build_defs run_defs)

text \<open>
  C8 as amended: starting from an empty slot, after any sequence of triggers, resumes
  and \<open>SetState\<close> calls the slot is occupied exactly when the most recent trigger made
  while the slot was empty was deferred by a leave-state callback and no resume
  followed. For a single trigger on any machine: the slot is occupied on return exactly
  when it was occupied before or the trigger was deferred; a trigger made while the
  slot is occupied returns \<open>InTransitionError\<close> and changes nothing; a deferred trigger
  returns \<open>AsyncError\<close>; and a trigger that returns nil, \<open>UnknownEventError\<close>,
  \<open>InvalidEventError\<close>, \<open>NoTransitionError\<close>, \<open>CanceledError\<close> or \<open>InternalError\<close> leaves
  the slot empty.
\<close>

theorem pending_slot_invariant:
  assumes "transition m = None" and "run m ops = (mf, log)"
    and "Event n ord name args = (r, n', t)"
  shows "((transition mf \<noteq> None) = pendingAfter False log)
       \<and> ((transition n' \<noteq> None) = (transition n \<noteq> None \<or> deferred t))
       \<and> (transition n \<noteq> None \<longrightarrow> r = Some (InTransitionError name) \<and> n' = n \<and> t = [])
       \<and> (transition n = None \<and> deferred t \<longrightarrow> isAsyncError r)
       \<and> (settled r \<longrightarrow> transition n' = None)"
proof -
  have d: "transition n = None \<and> deferred t \<longrightarrow> isAsyncError r"
  proof (intro impI, elim conjE)
    assume "transition n = None" and dt: "deferred t"
    then have ne: "t \<noteq> []" by (simp add: deferred_def)
    from Event_from_async [OF Event_with_calls(2) [OF assms(3) ne], of "last t"] dt ne
    show "isAsyncError r" by (simp add: deferred_def)
  qed
  from run_slot [OF assms(2)] assms(1) Event_slot [OF assms(3)] d show ?thesis by simp
qed

theorem pending_slot_invariant_witness:
  "transition (lights [(''leave_green'', deferIt)]) = None
   \<and> transition (fst (run (lights [(''leave_green'', deferIt)])
        [OpEvent lightKeys ''warn'' [], OpEvent lightKeys ''panic'' [], OpResume,
         OpEvent lightKeys ''panic'' []])) = None
   \<and> current (fst (run (lights [(''leave_green'', deferIt)])
        [OpEvent lightKeys ''warn'' [], OpEvent lightKeys ''panic'' [], OpResume,
         OpEvent lightKeys ''panic'' []])) = ''red''
   \<and> \<not> pendingAfter False (snd (run (lights [(''leave_green'', deferIt)])
        [OpEvent lightKeys ''warn'' [], OpEvent lightKeys ''panic'' [], OpResume,
         OpEvent lightKeys ''panic'' []]))
   \<and> transition (fst (snd (Event (lights [(''leave_green'', deferIt)]) lightKeys ''warn'' [])))
       \<noteq> None
   \<and> deferred (snd (snd (Event (lights [(''leave_green'', deferIt)]) lightKeys ''warn'' [])))
   \<and> isAsyncError (fst (Event (lights [(''leave_green'', deferIt)]) lightKeys ''warn'' []))
   \<and> settled (fst (Event (lights [(''leave_green'', deferIt)]) lightKeys ''hold'' []))
   \<and> transition (fst (snd (Event (lights [(''leave_green'', deferIt)]) lightKeys ''hold'' [])))
       = None"
proof -
  let ?m = "lights [(''leave_green'', deferIt)]"
  let ?ops = "[OpEvent lightKeys ''warn'' [], OpEvent lightKeys ''panic'' [], OpResume,
         OpEvent lightKeys ''panic'' []]"
  let ?c = "\<lparr>Event_Event = ''warn'', Event_Src = ''green'', Event_Dst = ''yellow'',
           Err = None, Args = ([] :: nat list), canceled = False, async = True\<rparr>"
  let ?k = "\<lparr>target = ''green'', callbackType = callbackLeaveState\<rparr>"
  have idle: "transition ?m = None" by (simp add: build_defs)
  have rn: "run ?m ?ops = (fst (run ?m ?ops), snd (run ?m ?ops))" by simp
  have fin: "current (fst (run ?m ?ops)) = ''red''" "transition (fst (run ?m ?ops)) = None"
    by (simp_all add: build_defs run_defs)
  have ev1: "Event ?m lightKeys ''warn'' []
               = (Some (AsyncError None), ?m\<lparr>transition := Some (''yellow'', ?c)\<rparr>, [(?k, ?c)])"
    by (simp add: build_defs run_defs)
  have ev2: "Event ?m lightKeys ''hold'' [] = (Some (NoTransitionError None), ?m, [])"
    by (simp add: build_defs run_defs)
  from pending_slot_invariant [OF idle rn ev1] pending_slot_invariant [OF idle rn ev2]
    idle fin ev1 ev2
  show ?thesis by (simp add: deferred_def del: run.simps)
qed

section \<open>C9: SetState\<close>

text \<open>
  C9: \<open>SetState\<close> overwrites the current state with any string, known to the table or
  not, and leaves the table, the registry and the slot as they are. It calls no
  callback and returns no error: it has no result but the machine.
\<close>

theorem SetState_overwrites:
  "current (SetState m s) = s \<and> Current (SetState m s) = s
   \<and> transition (SetState m s) = transition m
   \<and> transitions (SetState m s) = transitions m
   \<and> callbacks (SetState m s) = callbacks m
   \<and> step m (OpSetState s) = (None, m\<lparr>current := s\<rparr>, [])"
  by (simp add: SetState_def Current_def)

section \<open>C10: cancel and async set together\<close>

text \<open>
  C10: when a leave-state callback leaves both the cancel flag and the async flag set,
  the trigger returns \<open>CanceledError\<close> and not \<open>AsyncError\<close>, the slot is empty on return
  and the current state is unchanged.
\<close>

theorem cancel_beats_async_in_leave:
  assumes "Event m ord name args = (r, m', tr)" and "p \<in> set tr"
    and "callbackType (fst p) = callbackLeaveState"
    and "canceled (snd p)" and "async (snd p)"
  shows "r = Some (CanceledError (Err (snd p))) \<and> (\<forall>x. r \<noteq> Some (AsyncError x))
         \<and> transition m' = None \<and> current m' = current m"
proof -
  from assms(2) have ne: "tr \<noteq> []" by auto
  note idle = Event_with_calls(1) [OF assms(1) ne]
  note ef = Event_with_calls(2) [OF assms(1) ne]
  show ?thesis
    using Event_from_cancel [OF ef idle assms(2)] assms(3,4) idle
    by auto
qed

theorem cancel_beats_async_in_leave_witness:
  "Event (lights [(''leave_green'', cancelAndDefer)]) lightKeys ''warn'' []
     = (Some (CanceledError None), lights [(''leave_green'', cancelAndDefer)],
        [(\<lparr>target = ''green'', callbackType = callbackLeaveState\<rparr>,
          \<lparr>Event_Event = ''warn'', Event_Src = ''green'', Event_Dst = ''yellow'',
           Err = None, Args = [], canceled = True, async = True\<rparr>)])
   \<and> transition (lights [(''leave_green'', cancelAndDefer)]) = None
   \<and> current (lights [(''leave_green'', cancelAndDefer)]) = ''green''"
proof -
  let ?m = "lights [(''leave_green'', cancelAndDefer)]"
  let ?k = "\<lparr>target = ''green'', callbackType = callbackLeaveState\<rparr>"
  let ?c = "\<lparr>Event_Event = ''warn'', Event_Src = ''green'', Event_Dst = ''yellow'',
           Err = None, Args = ([] :: nat list), canceled = True, async = True\<rparr>"
  have ev: "Event ?m lightKeys ''warn'' [] = (Some (CanceledError None), ?m, [(?k, ?c)])"
    by (simp add: build_defs run_defs)
  have "(?k, ?c) \<in> set [(?k, ?c)]" "callbackType (fst (?k, ?c)) = callbackLeaveState"
    "canceled (snd (?k, ?c))" "async (snd (?k, ?c))"
    by simp_all
  from cancel_beats_async_in_leave [OF ev this] ev show ?thesis by (simp add: build_defs)
qed

end
